theory Spec2Isabelle
  imports Main "HOL-Library.Char_ord" "HOL-Library.List_Lexorder" "HOL-Library.Multiset"
begin

section \<open>JavaScript values used by the locale engine\<close>

text \<open>
  A shallow embedding of the consistency engine of zlocalz: the key/value format
  adapter (\<^verbatim>\<open>src/core/universal-parser.ts\<close>), the validator, the fixer
  (\<^verbatim>\<open>src/core/fixer.ts\<close>) and the patch generator.

  Strings are lists of code units (\<open>char\<close>). Parsed JSON is the datatype \<open>json\<close>; numbers
  are integers (fractional numbers do not occur in the values the engine inspects).
  An optional property is an \<open>option\<close>: \<open>None\<close> is JavaScript's \<open>undefined\<close>.
\<close>

datatype json =
    JNull
  | JBool bool
  | JNum int
  | JStr string
  | JArr "json list"
  | JObj "(string \<times> json) list"

type_synonym 'a js_object = "(string \<times> 'a) list"

text \<open>Truthiness, as \<^verbatim>\<open>if (x)\<close>, \<^verbatim>\<open>x || y\<close> and \<^verbatim>\<open>x && y\<close> test it.\<close>

fun truthy :: "json \<Rightarrow> bool" where
  "truthy JNull = False"
| "truthy (JBool b) = b"
| "truthy (JNum n) = (n \<noteq> 0)"
| "truthy (JStr s) = (s \<noteq> [])"
| "truthy (JArr xs) = True"
| "truthy (JObj kvs) = True"

definition truthy_opt :: "json option \<Rightarrow> bool" where
  "truthy_opt v = (case v of None \<Rightarrow> False | Some j \<Rightarrow> truthy j)"

definition truthy_str :: "string option \<Rightarrow> bool" where
  "truthy_str v = (case v of None \<Rightarrow> False | Some s \<Rightarrow> s \<noteq> [])"

subsection \<open>Objects: own properties in enumeration order\<close>

text \<open>
  An object is the list of its own properties in the order \<^verbatim>\<open>Object.keys\<close> and
  \<^verbatim>\<open>Object.entries\<close> enumerate them: keys that are array indices (canonical decimal
  numerals below \<open>2^32 - 1\<close>) first, in ascending numeric order, then every other key in
  the order of its creation. Lookup \<^verbatim>\<open>obj[k]\<close> reads own properties only; the model
  covers keys that do not name a property of \<^verbatim>\<open>Object.prototype\<close>.
\<close>

definition is_digit :: "char \<Rightarrow> bool" where
  "is_digit c = (c \<in> set ''0123456789'')"

definition digit_val :: "char \<Rightarrow> int" where
  "digit_val c = of_char c - 48"

definition str_int :: "string \<Rightarrow> int" where
  "str_int s = foldl (\<lambda>acc c. 10 * acc + digit_val c) 0 s"

definition array_index :: "string \<Rightarrow> int option" where
  "array_index k =
     (if k \<noteq> [] \<and> list_all is_digit k \<and> (k = ''0'' \<or> hd k \<noteq> CHR ''0'')
         \<and> length k \<le> 10 \<and> str_int k < 4294967295
      then Some (str_int k) else None)"

definition key_before :: "string \<Rightarrow> string \<Rightarrow> bool" where
  "key_before k k' =
     (case array_index k of
        None \<Rightarrow> False
      | Some i \<Rightarrow> (case array_index k' of None \<Rightarrow> True | Some j \<Rightarrow> i < j))"

fun obj_insert :: "string \<Rightarrow> 'a \<Rightarrow> 'a js_object \<Rightarrow> 'a js_object" where
  "obj_insert k v [] = [(k, v)]"
| "obj_insert k v ((k', v') # rest) =
     (if key_before k k' then (k, v) # (k', v') # rest
      else (k', v') # obj_insert k v rest)"

definition obj_keys :: "'a js_object \<Rightarrow> string list" where
  "obj_keys obj = map fst obj"

definition obj_get :: "'a js_object \<Rightarrow> string \<Rightarrow> 'a option" where
  "obj_get obj k = map_of obj k"

definition obj_has :: "'a js_object \<Rightarrow> string \<Rightarrow> bool" where
  "obj_has obj k = (k \<in> set (obj_keys obj))"

text \<open>\<^verbatim>\<open>obj[k] = v\<close>: an existing property keeps its place, a new one is created.\<close>

definition obj_set :: "string \<Rightarrow> 'a \<Rightarrow> 'a js_object \<Rightarrow> 'a js_object" where
  "obj_set k v obj =
     (if obj_has obj k then map (\<lambda>(k', v'). if k' = k then (k', v) else (k', v')) obj
      else obj_insert k v obj)"

text \<open>\<^verbatim>\<open>delete obj[k]\<close>.\<close>

definition obj_delete :: "string \<Rightarrow> 'a js_object \<Rightarrow> 'a js_object" where
  "obj_delete k obj = filter (\<lambda>(k', v'). k' \<noteq> k) obj"

subsection \<open>String helpers\<close>

text \<open>
  \<^verbatim>\<open>String.prototype.trim\<close> and the regular expression class \<^verbatim>\<open>\s\<close> agree on white space;
  among the code units below 256 these are TAB, LF, VT, FF, CR, SPACE and NBSP.
\<close>

definition is_space :: "char \<Rightarrow> bool" where
  "is_space c = (c \<in> set [CHR 0x09, CHR 0x0A, CHR 0x0B, CHR 0x0C, CHR 0x0D, CHR 0x20, CHR 0xA0])"

definition trim :: "string \<Rightarrow> string" where
  "trim s = rev (dropWhile is_space (rev (dropWhile is_space s)))"

text \<open>\<^verbatim>\<open>s.includes(sub)\<close>.\<close>

fun str_includes :: "string \<Rightarrow> string \<Rightarrow> bool" where
  "str_includes [] sub = (sub = [])"
| "str_includes (c # cs) sub = (take (length sub) (c # cs) = sub \<or> str_includes cs sub)"

text \<open>\<^verbatim>\<open>s.startsWith(p)\<close>.\<close>

definition startsWith :: "string \<Rightarrow> string \<Rightarrow> bool" where
  "startsWith s p = (take (length p) s = p)"

text \<open>\<^verbatim>\<open>s.replace(/\s+/g, ' ')\<close>: every maximal run of white space becomes one space.\<close>

function collapse_spaces :: "string \<Rightarrow> string" where
  "collapse_spaces [] = []"
| "collapse_spaces (c # cs) =
     (if is_space c then CHR '' '' # collapse_spaces (dropWhile is_space cs)
      else c # collapse_spaces cs)"
  by pat_completeness auto
termination
  by (relation "measure length") (auto simp: less_Suc_eq_le length_dropWhile_le)

text \<open>
  \<^verbatim>\<open>extractPlaceholders\<close> (validator and fixer share the code): the global regular
  expression \<^verbatim>\<open>/\{([^}]+)\}/g\<close> is run from left to right. At an opening brace the
  class \<^verbatim>\<open>[^}]+\<close> takes every code unit up to the next closing brace; the match
  succeeds when that run is not empty and a closing brace follows, and the search goes on
  after it. Otherwise the search moves one code unit on.
\<close>

function extractPlaceholders :: "string \<Rightarrow> string list" where
  "extractPlaceholders [] = []"
| "extractPlaceholders (c # cs) =
     (if c = CHR ''{'' then
        (let name = takeWhile (\<lambda>x. x \<noteq> CHR ''}'') cs;
             rest = dropWhile (\<lambda>x. x \<noteq> CHR ''}'') cs
         in if name \<noteq> [] \<and> rest \<noteq> [] then name # extractPlaceholders (tl rest)
            else extractPlaceholders cs)
      else extractPlaceholders cs)"
  by pat_completeness auto
termination
proof (relation "measure length", goal_cases)
  case 1
  show ?case by simp
next
  case (2 c cs name rest)
  have "length (tl (dropWhile (\<lambda>x. x \<noteq> CHR ''}'') cs)) \<le> length cs"
    using length_dropWhile_le [of "\<lambda>x. x \<noteq> CHR ''}''" cs] by simp
  with 2 show ?case by simp
next
  case 3
  then show ?case by simp
next
  case 4
  then show ?case by simp
qed

text \<open>\<^verbatim>\<open>value.replace(/[^{}]+/g, 'TODO')\<close>: every maximal run of code units other than
  braces becomes the marker.\<close>

definition is_brace :: "char \<Rightarrow> bool" where
  "is_brace c = (c = CHR ''{'' \<or> c = CHR ''}'')"

function replaceNonBraceRuns :: "string \<Rightarrow> string" where
  "replaceNonBraceRuns [] = []"
| "replaceNonBraceRuns (c # cs) =
     (if is_brace c then c # replaceNonBraceRuns cs
      else ''TODO'' @ replaceNonBraceRuns (dropWhile (\<lambda>x. \<not> is_brace x) cs))"
  by pat_completeness auto
termination
  by (relation "measure length") (auto simp: less_Suc_eq_le length_dropWhile_le)


definition join :: "string \<Rightarrow> string list \<Rightarrow> string" where
  "join sep xs = (case xs of [] \<Rightarrow> [] | y # ys \<Rightarrow> y @ concat (map (\<lambda>z. sep @ z) ys))"

definition dq :: string where
  "dq = [CHR 0x22]"

text \<open>\<^verbatim>\<open>Map.prototype.set\<close> on a \<^verbatim>\<open>Map\<close> with string keys, listed in insertion order.\<close>

fun map_put :: "string \<Rightarrow> 'a \<Rightarrow> (string \<times> 'a) list \<Rightarrow> (string \<times> 'a) list" where
  "map_put k v [] = [(k, v)]"
| "map_put k v ((k', v') # rest) =
     (if k' = k then (k', v) # rest else (k', v') # map_put k v rest)"

section \<open>The data model (\<^verbatim>\<open>src/types/index.ts\<close>)\<close>

datatype LocaleFileFormat = Arb | Json | Yaml | Yml | Csv | Tsv

text \<open>\<^verbatim>\<open>LocaleEntry\<close> and \<^verbatim>\<open>LocaleFile\<close>; the fields \<open>val\<close>, \<open>econtext\<close> and
  \<open>file_locale\<close> are the source's \<^verbatim>\<open>value\<close>, \<^verbatim>\<open>context\<close> and \<^verbatim>\<open>locale\<close>.\<close>

record LocaleEntry =
  key :: string
  val :: string
  metadata :: "json option"
  description :: "json option"
  placeholders :: "json option"
  econtext :: "json option"
  tags :: "json option"

record LocaleFile =
  file_locale :: string
  path :: string
  format :: LocaleFileFormat
  entries :: "LocaleEntry js_object"
  raw :: "json js_object"
  lastModified :: "nat option"

datatype IssueType = Missing | Extra | Duplicate | IcuError | PlaceholderMismatch | Formatting

datatype Severity = SevError | SevWarning

text \<open>\<^verbatim>\<open>ValidationIssue\<close>; \<open>issue_type\<close>, \<open>issue_locale\<close> and \<open>issue_key\<close> are its \<^verbatim>\<open>type\<close>,
  \<^verbatim>\<open>locale\<close> and \<^verbatim>\<open>key\<close>.\<close>

record ValidationIssue =
  issue_type :: IssueType
  issue_locale :: string
  issue_key :: string
  message :: string
  severity :: Severity
  sourceValue :: "string option"
  targetValue :: "string option"
  suggestion :: "string option"

datatype FixType =
  AddMissing | RemoveExtra | RemoveDuplicate | FixPlaceholder | FixICU | FixFormatting

text \<open>\<^verbatim>\<open>Fix\<close>; \<open>fix_type\<close>, \<open>fix_locale\<close>, \<open>fix_key\<close> and \<open>fix_description\<close> are its \<^verbatim>\<open>type\<close>,
  \<^verbatim>\<open>locale\<close>, \<^verbatim>\<open>key\<close> and \<^verbatim>\<open>description\<close>.\<close>

record Fix =
  fix_type :: FixType
  fix_locale :: string
  fix_key :: string
  oldValue :: "string option"
  newValue :: "string option"
  fix_description :: string

datatype Order = MirrorSource | Alphabetical

text \<open>The options of \<^verbatim>\<open>LocalzConfig\<close> that the engine reads.\<close>

record LocalzConfig =
  doAutoFix :: bool
  preferOrder :: "Order option"

section \<open>The validator\<close>

text \<open>
  A loop \<^verbatim>\<open>for (const key of Object.keys(obj))\<close> that reads \<^verbatim>\<open>obj[key]\<close> is a traversal
  of the property list: keys of an object are distinct, so \<^verbatim>\<open>obj[key]\<close> is the value
  listed with \<open>key\<close>.
\<close>

definition checkMissingKeys :: "LocaleFile \<Rightarrow> LocaleFile \<Rightarrow> ValidationIssue list" where
  "checkMissingKeys sourceFile targetFile =
     map (\<lambda>(k, e).
            \<lparr>issue_type = Missing, issue_locale = file_locale targetFile, issue_key = k,
             message = ''Key '' @ dq @ k @ dq @ '' is missing'',
             severity = SevError, sourceValue = Some (val e),
             targetValue = None, suggestion = None\<rparr>)
         (filter (\<lambda>(k, e). k \<notin> set (obj_keys (entries targetFile))) (entries sourceFile))"

definition checkExtraKeys :: "LocaleFile \<Rightarrow> LocaleFile \<Rightarrow> ValidationIssue list" where
  "checkExtraKeys sourceFile targetFile =
     map (\<lambda>(k, e).
            \<lparr>issue_type = Extra, issue_locale = file_locale targetFile, issue_key = k,
             message = ''Key '' @ dq @ k @ dq @ '' not in source locale'',
             severity = SevWarning, sourceValue = None,
             targetValue = Some (val e), suggestion = None\<rparr>)
         (filter (\<lambda>(k, e). k \<notin> set (obj_keys (entries sourceFile))) (entries targetFile))"

text \<open>The \<^verbatim>\<open>Map\<close> from trimmed value to the keys that carry it, in insertion order.\<close>

fun group_add :: "string \<Rightarrow> string \<Rightarrow> (string \<times> string list) list
    \<Rightarrow> (string \<times> string list) list" where
  "group_add v k [] = [(v, [k])]"
| "group_add v k ((v', ks) # rest) =
     (if v' = v then (v', ks @ [k]) # rest else (v', ks) # group_add v k rest)"

definition seenValues :: "LocaleFile \<Rightarrow> (string \<times> string list) list" where
  "seenValues targetFile =
     foldl (\<lambda>seen (k, e). group_add (trim (val e)) k seen) [] (entries targetFile)"

definition checkDuplicates :: "LocaleFile \<Rightarrow> ValidationIssue list" where
  "checkDuplicates targetFile =
     concat (map (\<lambda>(v, ks).
                    (case ks of
                       [] \<Rightarrow> []
                     | k0 # others \<Rightarrow>
                         map (\<lambda>k.
                            \<lparr>issue_type = Duplicate, issue_locale = file_locale targetFile, issue_key = k,
                             message = ''Duplicate value with key '' @ dq @ k0 @ dq,
                             severity = SevWarning, sourceValue = None,
                             targetValue = Some v,
                             suggestion = Some (''Remove duplicate or differentiate from ''
                                                @ dq @ k0 @ dq)\<rparr>) others))
                 (seenValues targetFile))"

definition placeholdersDiffer :: "string list \<Rightarrow> string list \<Rightarrow> bool" where
  "placeholdersDiffer sourcePlaceholders targetPlaceholders =
     (length sourcePlaceholders \<noteq> length targetPlaceholders
      \<or> \<not> list_all (\<lambda>p. p \<in> set targetPlaceholders) sourcePlaceholders)"

text \<open>The body of the loop of \<^verbatim>\<open>checkPlaceholders\<close>, at a key of the source and its entry.\<close>

definition checkPlaceholderEntry :: "LocaleFile \<Rightarrow> string \<Rightarrow> LocaleEntry \<Rightarrow> ValidationIssue list" where
  "checkPlaceholderEntry targetFile k se =
     (case obj_get (entries targetFile) k of
        None \<Rightarrow> []
      | Some te \<Rightarrow>
          (let sourcePlaceholders = extractPlaceholders (val se);
               targetPlaceholders = extractPlaceholders (val te)
           in if placeholdersDiffer sourcePlaceholders targetPlaceholders
              then [\<lparr>issue_type = PlaceholderMismatch, issue_locale = file_locale targetFile,
                     issue_key = k,
                     message = ''Placeholder mismatch: expected [''
                               @ join '', '' sourcePlaceholders @ ''], found [''
                               @ join '', '' targetPlaceholders @ '']'',
                     severity = SevError, sourceValue = Some (val se),
                     targetValue = Some (val te), suggestion = None\<rparr>]
              else []))"

definition checkPlaceholders :: "LocaleFile \<Rightarrow> LocaleFile \<Rightarrow> ValidationIssue list" where
  "checkPlaceholders sourceFile targetFile =
     concat (map (\<lambda>(k, se). checkPlaceholderEntry targetFile k se) (entries sourceFile))"

definition isICUMessage :: "string \<Rightarrow> bool" where
  "isICUMessage v =
     (str_includes v ''{''
      \<and> (str_includes v '', plural,'' \<or> str_includes v '', select,''
         \<or> str_includes v '', selectordinal,''))"

text \<open>\<^verbatim>\<open>Object.keys\<close> of a parsed value, and the reading of a property of one.\<close>

function nat_str :: "nat \<Rightarrow> string" where
  "nat_str n = (if n < 10 then [char_of (48 + n)]
                else nat_str (n div 10) @ [char_of (48 + n mod 10)])"
  by pat_completeness auto
termination
  by (relation "measure id") auto

definition int_str :: "int \<Rightarrow> string" where
  "int_str i = (if i < 0 then CHR ''-'' # nat_str (nat (- i)) else nat_str (nat i))"

definition own_keys :: "json \<Rightarrow> string list" where
  "own_keys j =
     (case j of
        JObj kvs \<Rightarrow> obj_keys kvs
      | JArr xs \<Rightarrow> map nat_str [0 ..< length xs]
      | JStr s \<Rightarrow> map nat_str [0 ..< length s]
      | _ \<Rightarrow> [])"


text \<open>
  \<^verbatim>\<open>extractICUStructure\<close>. The result is only ever passed to \<^verbatim>\<open>JSON.stringify\<close>, which
  leaves out a property whose value is \<^verbatim>\<open>undefined\<close>, so \<open>type\<close> is listed only when
  the node has one.
\<close>

fun extractICUStructure :: "json \<Rightarrow> json" where
  "extractICUStructure (JArr xs) = JArr (map extractICUStructure xs)"
| "extractICUStructure (JObj kvs) =
     JObj ((case obj_get kvs ''type'' of None \<Rightarrow> [] | Some t \<Rightarrow> [(''type'', t)])
           @ (case obj_get kvs ''argument'' of
                None \<Rightarrow> []
              | Some a \<Rightarrow> if truthy a then [(''argument'', a)] else [])
           @ (case obj_get kvs ''pluralType'' of
                None \<Rightarrow> []
              | Some p \<Rightarrow> if truthy p then [(''pluralType'', p)] else [])
           @ (case obj_get kvs ''options'' of
                None \<Rightarrow> []
              | Some opts \<Rightarrow>
                  if truthy opts then [(''options'', JArr (map JStr (sort (own_keys opts))))]
                  else []))"
| "extractICUStructure _ = JNull"

text \<open>
  The parser of structured messages (\<^verbatim>\<open>@messageformat/parser\<close>) and \<^verbatim>\<open>JSON.stringify\<close>
  are libraries outside the repository: \<open>parseICU\<close> gives the parsed tree or, when the
  library throws, the text of the error; \<open>stringify\<close> serialises a value.
\<close>

definition compareICUStructure :: "(json \<Rightarrow> string) \<Rightarrow> json \<Rightarrow> json \<Rightarrow> bool" where
  "compareICUStructure stringify ast1 ast2 =
     (stringify (extractICUStructure ast1) = stringify (extractICUStructure ast2))"

text \<open>The body of the loop of \<^verbatim>\<open>checkICUMessages\<close>, at a key of the source and its entry.\<close>

definition checkICUEntry ::
  "(string \<Rightarrow> string + json) \<Rightarrow> (json \<Rightarrow> string) \<Rightarrow> LocaleFile \<Rightarrow> string \<Rightarrow> LocaleEntry
     \<Rightarrow> ValidationIssue list" where
  "checkICUEntry parseICU stringify targetFile k se =
     (case obj_get (entries targetFile) k of
        None \<Rightarrow> []
      | Some te \<Rightarrow>
          if isICUMessage (val se) then
            (case parseICU (val se) of
               Inl err \<Rightarrow>
                 [\<lparr>issue_type = IcuError, issue_locale = file_locale targetFile, issue_key = k,
                   message = ''Invalid ICU message: '' @ err,
                   severity = SevError, sourceValue = None,
                   targetValue = Some (val te), suggestion = None\<rparr>]
             | Inr sourceAST \<Rightarrow>
                 (case parseICU (val te) of
                    Inl err \<Rightarrow>
                      [\<lparr>issue_type = IcuError, issue_locale = file_locale targetFile,
                        issue_key = k,
                        message = ''Invalid ICU message: '' @ err,
                        severity = SevError, sourceValue = None,
                        targetValue = Some (val te), suggestion = None\<rparr>]
                  | Inr targetAST \<Rightarrow>
                      if \<not> compareICUStructure stringify sourceAST targetAST
                      then [\<lparr>issue_type = IcuError, issue_locale = file_locale targetFile,
                             issue_key = k,
                             message = ''ICU structure mismatch with source'',
                             severity = SevError, sourceValue = Some (val se),
                             targetValue = Some (val te), suggestion = None\<rparr>]
                      else []))
          else [])"

definition checkICUMessages ::
  "(string \<Rightarrow> string + json) \<Rightarrow> (json \<Rightarrow> string) \<Rightarrow> LocaleFile \<Rightarrow> LocaleFile
     \<Rightarrow> ValidationIssue list" where
  "checkICUMessages parseICU stringify sourceFile targetFile =
     concat (map (\<lambda>(k, se). checkICUEntry parseICU stringify targetFile k se)
               (entries sourceFile))"

text \<open>The body of the loop of \<^verbatim>\<open>checkFormatting\<close>.\<close>

definition checkFormattingEntry :: "LocaleFile \<Rightarrow> string \<Rightarrow> LocaleEntry \<Rightarrow> ValidationIssue list" where
  "checkFormattingEntry targetFile k e =
     (if val e \<noteq> trim (val e)
      then [\<lparr>issue_type = Formatting, issue_locale = file_locale targetFile, issue_key = k,
             message = ''Value has leading or trailing whitespace'',
             severity = SevWarning, sourceValue = None,
             targetValue = Some (val e), suggestion = Some (trim (val e))\<rparr>]
      else [])
     @ (if str_includes (val e) ''  ''
        then [\<lparr>issue_type = Formatting, issue_locale = file_locale targetFile, issue_key = k,
               message = ''Value contains multiple consecutive spaces'',
               severity = SevWarning, sourceValue = None,
               targetValue = Some (val e),
               suggestion = Some (collapse_spaces (val e))\<rparr>]
        else [])"

definition checkFormatting :: "LocaleFile \<Rightarrow> ValidationIssue list" where
  "checkFormatting targetFile =
     concat (map (\<lambda>(k, e). checkFormattingEntry targetFile k e) (entries targetFile))"

definition validateTarget ::
  "(string \<Rightarrow> string + json) \<Rightarrow> (json \<Rightarrow> string) \<Rightarrow> LocaleFile \<Rightarrow> LocaleFile
     \<Rightarrow> ValidationIssue list" where
  "validateTarget parseICU stringify sourceFile targetFile =
     checkMissingKeys sourceFile targetFile
     @ checkExtraKeys sourceFile targetFile
     @ checkDuplicates targetFile
     @ checkPlaceholders sourceFile targetFile
     @ checkICUMessages parseICU stringify sourceFile targetFile
     @ checkFormatting targetFile"

record Stats =
  totalKeys :: nat
  missingKeys :: nat
  extraKeys :: nat
  duplicates :: nat
  icuErrors :: nat
  placeholderMismatches :: nat
  formattingWarnings :: nat

text \<open>\<^verbatim>\<open>LocaleReport\<close>; \<open>report_locale\<close>, \<open>report_format\<close> and \<open>report_issues\<close> are its
  \<^verbatim>\<open>locale\<close>, \<^verbatim>\<open>format\<close> and \<^verbatim>\<open>issues\<close>.\<close>

record LocaleReport =
  report_locale :: string
  report_format :: LocaleFileFormat
  report_issues :: "ValidationIssue list"
  stats :: Stats

definition count_issue :: "Stats \<Rightarrow> ValidationIssue \<Rightarrow> Stats" where
  "count_issue st issue =
     (case issue_type issue of
        Missing \<Rightarrow> st\<lparr>missingKeys := missingKeys st + 1\<rparr>
      | Extra \<Rightarrow> st\<lparr>extraKeys := extraKeys st + 1\<rparr>
      | Duplicate \<Rightarrow> st\<lparr>duplicates := duplicates st + 1\<rparr>
      | IcuError \<Rightarrow> st\<lparr>icuErrors := icuErrors st + 1\<rparr>
      | PlaceholderMismatch \<Rightarrow> st\<lparr>placeholderMismatches := placeholderMismatches st + 1\<rparr>
      | Formatting \<Rightarrow> st\<lparr>formattingWarnings := formattingWarnings st + 1\<rparr>)"

definition calculateStats :: "LocaleFile \<Rightarrow> ValidationIssue list \<Rightarrow> Stats" where
  "calculateStats sourceFile is =
     foldl count_issue
       \<lparr>totalKeys = length (obj_keys (entries sourceFile)), missingKeys = 0, extraKeys = 0,
        duplicates = 0, icuErrors = 0, placeholderMismatches = 0, formattingWarnings = 0\<rparr>
       is"

text \<open>\<^verbatim>\<open>validate\<close>: the \<^verbatim>\<open>Map\<close> from locale to report, one target after the other.\<close>

definition validate ::
  "(string \<Rightarrow> string + json) \<Rightarrow> (json \<Rightarrow> string) \<Rightarrow> LocaleFile \<Rightarrow> LocaleFile list
     \<Rightarrow> (string \<times> LocaleReport) list" where
  "validate parseICU stringify sourceFile targetFiles =
     foldl (\<lambda>reports targetFile.
              (let is = validateTarget parseICU stringify sourceFile targetFile
               in map_put (file_locale targetFile)
                    \<lparr>report_locale = file_locale targetFile,
                     report_format = format targetFile,
                     report_issues = is, stats = calculateStats sourceFile is\<rparr>
                    reports))
       [] targetFiles"

section \<open>The fixer (\<^verbatim>\<open>src/core/fixer.ts\<close>)\<close>

text \<open>
  What the fixer can fail with: \<open>TypeError\<close> is JavaScript's error at the read of a
  property of \<^verbatim>\<open>undefined\<close>. \<open>RegExpOutsideModel\<close> marks a call of
  \<^verbatim>\<open>new RegExp\<close> on a placeholder name that holds characters of the syntax of regular
  expressions (or a replacement that holds \<^verbatim>\<open>$\<close>), which the model does not interpret.
\<close>

datatype error = TypeError | RegExpOutsideModel

definition generateMissingKeyFix :: "LocaleFile \<Rightarrow> ValidationIssue \<Rightarrow> error + Fix" where
  "generateMissingKeyFix sourceFile issue =
     (case obj_get (entries sourceFile) (issue_key issue) of
        None \<Rightarrow> Inl TypeError
      | Some sourceEntry \<Rightarrow>
          (let phs = extractPlaceholders (val sourceEntry);
               newValue = (if length phs > 0 then replaceNonBraceRuns (val sourceEntry)
                           else ''TODO'')
           in Inr \<lparr>fix_type = AddMissing, fix_locale = issue_locale issue,
                   fix_key = issue_key issue, oldValue = None, newValue = Some newValue,
                   fix_description = ''Add missing key '' @ dq @ issue_key issue @ dq
                     @ '' with placeholder structure from source''\<rparr>))"

definition generateExtraKeyFix :: "ValidationIssue \<Rightarrow> Fix" where
  "generateExtraKeyFix issue =
     \<lparr>fix_type = RemoveExtra, fix_locale = issue_locale issue, fix_key = issue_key issue,
      oldValue = targetValue issue, newValue = None,
      fix_description = ''Remove extra key '' @ dq @ issue_key issue @ dq
        @ '' not present in source''\<rparr>"

definition generateDuplicateFix :: "ValidationIssue \<Rightarrow> LocaleFile \<Rightarrow> Fix" where
  "generateDuplicateFix issue targetFile =
     \<lparr>fix_type = RemoveDuplicate, fix_locale = issue_locale issue,
      fix_key = issue_key issue,
      oldValue = map_option val (obj_get (entries targetFile) (issue_key issue)),
      newValue = None,
      fix_description = ''Remove duplicate key '' @ dq @ issue_key issue @ dq\<rparr>"

definition placeholderMap :: "string list \<Rightarrow> string list \<Rightarrow> (string \<times> string) list" where
  "placeholderMap sourcePlaceholders targetPlaceholders =
     foldl (\<lambda>m (t, s). if s \<noteq> t then map_put t s m else m) []
       (zip targetPlaceholders sourcePlaceholders)"

text \<open>Replacement of every occurrence of a literal text, from left to right.\<close>

function replace_all :: "string \<Rightarrow> string \<Rightarrow> string \<Rightarrow> string" where
  "replace_all pat rep [] = []"
| "replace_all pat rep (c # cs) =
     (if pat \<noteq> [] \<and> take (length pat) (c # cs) = pat
      then rep @ replace_all pat rep (drop (length pat) (c # cs))
      else c # replace_all pat rep cs)"
  by pat_completeness auto
termination
  by (relation "measure (\<lambda>(pat, rep, s). length s)") (auto simp: Suc_le_eq)

definition regexp_syntax_chars :: "char set" where
  "regexp_syntax_chars = set (CHR 0x5C # ''^$.*+?()[]{}|'')"

text \<open>
  \<^verbatim>\<open>fixedValue.replace(new RegExp(`\\{${oldPh}\\}`, 'g'), `{${newPh}}`)\<close>. For a name
  free of the syntax of regular expressions the pattern matches the literal text
  \<^verbatim>\<open>{oldPh}\<close>, and a replacement free of \<^verbatim>\<open>$\<close> is inserted as it is.
\<close>

definition replacePlaceholder :: "string \<Rightarrow> string \<Rightarrow> string \<Rightarrow> error + string" where
  "replacePlaceholder oldPh newPh fixedValue =
     (if set oldPh \<inter> regexp_syntax_chars = {} \<and> CHR ''$'' \<notin> set newPh
      then Inr (replace_all (''{'' @ oldPh @ ''}'') (''{'' @ newPh @ ''}'') fixedValue)
      else Inl RegExpOutsideModel)"

fun replacePlaceholders :: "(string \<times> string) list \<Rightarrow> string \<Rightarrow> error + string" where
  "replacePlaceholders [] fixedValue = Inr fixedValue"
| "replacePlaceholders ((oldPh, newPh) # rest) fixedValue =
     (case replacePlaceholder oldPh newPh fixedValue of
        Inl e \<Rightarrow> Inl e
      | Inr fixedValue' \<Rightarrow> replacePlaceholders rest fixedValue')"

definition generatePlaceholderFix :: "ValidationIssue \<Rightarrow> error + Fix" where
  "generatePlaceholderFix issue =
     (if \<not> truthy_str (sourceValue issue) \<or> \<not> truthy_str (targetValue issue)
      then Inr \<lparr>fix_type = FixPlaceholder, fix_locale = issue_locale issue,
                fix_key = issue_key issue, oldValue = None, newValue = None,
                fix_description = ''Cannot fix placeholder without source/target values''\<rparr>
      else
        (let sourcePlaceholders = extractPlaceholders (the (sourceValue issue));
             targetPlaceholders = extractPlaceholders (the (targetValue issue))
         in case replacePlaceholders (placeholderMap sourcePlaceholders targetPlaceholders)
                   (the (targetValue issue)) of
              Inl e \<Rightarrow> Inl e
            | Inr fixedValue \<Rightarrow>
                Inr \<lparr>fix_type = FixPlaceholder, fix_locale = issue_locale issue,
                     fix_key = issue_key issue, oldValue = targetValue issue,
                     newValue = Some fixedValue,
                     fix_description = ''Fix placeholder names to match source''\<rparr>))"

definition generateFormattingFix :: "ValidationIssue \<Rightarrow> Fix" where
  "generateFormattingFix issue =
     \<lparr>fix_type = FixFormatting, fix_locale = issue_locale issue, fix_key = issue_key issue,
      oldValue = targetValue issue,
      newValue = (if truthy_str (suggestion issue) then suggestion issue
                  else map_option (\<lambda>t. collapse_spaces (trim t)) (targetValue issue)),
      fix_description = ''Fix formatting issues in '' @ dq @ issue_key issue @ dq\<rparr>"

text \<open>
  The pattern \<^verbatim>\<open>/(\{[^,]+,\s*(plural|select|selectordinal),)([^}]+)\}/g\<close> of
  \<^verbatim>\<open>generateICUFix\<close>. After an opening brace, \<^verbatim>\<open>[^,]+\<close> runs to the next
  comma, \<^verbatim>\<open>\s*\<close> over the white space behind it, one of the three keywords and a
  comma must follow, and \<^verbatim>\<open>[^}]+\<close> runs to the next closing brace. No shorter
  choice of a run can match, so the match at a position is unique.
  \<open>icuMatchAt\<close> takes the text behind the opening brace and gives the whole match.
\<close>

definition strip_keyword :: "string \<Rightarrow> (string \<times> string) option" where
  "strip_keyword r =
     (if startsWith r ''plural,'' then Some (''plural,'', drop 7 r)
      else if startsWith r ''select,'' then Some (''select,'', drop 7 r)
      else if startsWith r ''selectordinal,'' then Some (''selectordinal,'', drop 14 r)
      else None)"

definition icuMatchAt :: "string \<Rightarrow> string option" where
  "icuMatchAt cs =
     (let a = takeWhile (\<lambda>x. x \<noteq> CHR '','') cs;
          r1 = dropWhile (\<lambda>x. x \<noteq> CHR '','') cs
      in if a = [] \<or> r1 = [] then None
         else
           (let sp = takeWhile is_space (tl r1);
                r2 = dropWhile is_space (tl r1)
            in case strip_keyword r2 of
                 None \<Rightarrow> None
               | Some (kw, r3) \<Rightarrow>
                   (let b = takeWhile (\<lambda>x. x \<noteq> CHR ''}'') r3;
                        r4 = dropWhile (\<lambda>x. x \<noteq> CHR ''}'') r3
                    in if b = [] \<or> r4 = [] then None
                       else Some (''{'' @ a @ '','' @ sp @ kw @ b @ ''}''))))"

function icuMatches :: "string \<Rightarrow> string list" where
  "icuMatches [] = []"
| "icuMatches (c # cs) =
     (if c = CHR ''{'' then
        (case icuMatchAt cs of
           None \<Rightarrow> icuMatches cs
         | Some m \<Rightarrow> m # icuMatches (drop (length m - 1) cs))
      else icuMatches cs)"
  by pat_completeness auto
termination
  by (relation "measure length") (auto simp: less_Suc_eq_le)

text \<open>
  \<^verbatim>\<open>fullMatch.replace(/[^{}=\s]+(?=[^{}]*[{}])/g, 'TODO')\<close>: a maximal run of code
  units other than braces, \<^verbatim>\<open>=\<close> and white space becomes the marker when a brace
  occurs somewhere behind it.
\<close>

definition is_struct_char :: "char \<Rightarrow> bool" where
  "is_struct_char c = (is_brace c \<or> c = CHR ''='' \<or> is_space c)"

function structureOnly :: "string \<Rightarrow> string" where
  "structureOnly [] = []"
| "structureOnly (c # cs) =
     (if is_struct_char c then c # structureOnly cs
      else if list_ex is_brace (dropWhile (\<lambda>x. \<not> is_struct_char x) cs)
      then ''TODO'' @ structureOnly (dropWhile (\<lambda>x. \<not> is_struct_char x) cs)
      else c # structureOnly cs)"
  by pat_completeness auto
termination
  by (relation "measure length") (auto simp: less_Suc_eq_le length_dropWhile_le)

definition generateICUFix :: "ValidationIssue \<Rightarrow> Fix" where
  "generateICUFix issue =
     (if \<not> truthy_str (sourceValue issue)
      then \<lparr>fix_type = FixICU, fix_locale = issue_locale issue, fix_key = issue_key issue,
            oldValue = None, newValue = None,
            fix_description = ''Cannot fix ICU without source value''\<rparr>
      else
        (let sourceMatches = icuMatches (the (sourceValue issue));
             fixedValue =
               (if sourceMatches = []
                then (if truthy_str (targetValue issue) then the (targetValue issue) else [])
                else structureOnly (last sourceMatches))
         in \<lparr>fix_type = FixICU, fix_locale = issue_locale issue, fix_key = issue_key issue,
              oldValue = targetValue issue, newValue = Some fixedValue,
              fix_description = ''Fix ICU structure to match source''\<rparr>))"

text \<open>\<^verbatim>\<open>generateFix\<close>: the six cases of the \<^verbatim>\<open>switch\<close> cover \<^verbatim>\<open>IssueType\<close>, so the
  \<^verbatim>\<open>default\<close> branch with its \<^verbatim>\<open>null\<close> is never taken.\<close>

definition generateFix :: "LocaleFile \<Rightarrow> ValidationIssue \<Rightarrow> LocaleFile \<Rightarrow> error + Fix" where
  "generateFix sourceFile issue targetFile =
     (case issue_type issue of
        Missing \<Rightarrow> generateMissingKeyFix sourceFile issue
      | Extra \<Rightarrow> Inr (generateExtraKeyFix issue)
      | Duplicate \<Rightarrow> Inr (generateDuplicateFix issue targetFile)
      | PlaceholderMismatch \<Rightarrow> generatePlaceholderFix issue
      | Formatting \<Rightarrow> Inr (generateFormattingFix issue)
      | IcuError \<Rightarrow> Inr (generateICUFix issue))"

definition applyFix :: "LocaleFile \<Rightarrow> Fix \<Rightarrow> LocaleFile \<Rightarrow> error + LocaleFile" where
  "applyFix sourceFile fix targetFile =
     (case fix_type fix of
        AddMissing \<Rightarrow>
          (case obj_get (entries sourceFile) (fix_key fix) of
             None \<Rightarrow> Inl TypeError
           | Some sourceEntry \<Rightarrow>
               Inr (targetFile\<lparr>entries :=
                      obj_set (fix_key fix)
                        \<lparr>key = fix_key fix,
                         val = (if truthy_str (newValue fix) then the (newValue fix)
                                else ''TODO''),
                         metadata = metadata sourceEntry,
                         description = description sourceEntry,
                         placeholders = placeholders sourceEntry,
                         econtext = None, tags = None\<rparr>
                        (entries targetFile)\<rparr>))
      | RemoveExtra \<Rightarrow>
          Inr (targetFile\<lparr>entries := obj_delete (fix_key fix) (entries targetFile),
                          raw := obj_delete (CHR ''@'' # fix_key fix)
                                   (obj_delete (fix_key fix) (raw targetFile))\<rparr>)
      | RemoveDuplicate \<Rightarrow>
          Inr (targetFile\<lparr>entries := obj_delete (fix_key fix) (entries targetFile),
                          raw := obj_delete (CHR ''@'' # fix_key fix)
                                   (obj_delete (fix_key fix) (raw targetFile))\<rparr>)
      | _ \<Rightarrow>
          (case obj_get (entries targetFile) (fix_key fix) of
             None \<Rightarrow> Inr targetFile
           | Some e \<Rightarrow>
               if truthy_str (newValue fix)
               then Inr (targetFile\<lparr>entries :=
                           obj_set (fix_key fix) (e\<lparr>val := the (newValue fix)\<rparr>)
                             (entries targetFile)\<rparr>)
               else Inr targetFile))"

text \<open>
  The two reorderings build a new object \<^verbatim>\<open>reordered\<close>: \<open>copy_keys\<close> is the loop
  \<^verbatim>\<open>for (const key of keys) reordered[key] = obj[key]\<close>, guarded by \<^verbatim>\<open>if (obj[key])\<close> in
  \<^verbatim>\<open>reorderToMatchSource\<close> (an entry is an object and so truthy).
\<close>

definition copy_keys :: "'a js_object \<Rightarrow> 'a js_object \<Rightarrow> string list \<Rightarrow> 'a js_object" where
  "copy_keys obj reordered ks =
     foldl (\<lambda>acc k. case obj_get obj k of None \<Rightarrow> acc | Some e \<Rightarrow> obj_set k e acc)
       reordered ks"

definition mirror_order :: "string list \<Rightarrow> 'a js_object \<Rightarrow> 'a js_object" where
  "mirror_order sourceKeys obj =
     (let reordered = copy_keys obj [] sourceKeys;
          targetOnlyKeys = filter (\<lambda>k. k \<notin> set sourceKeys) (obj_keys obj)
      in copy_keys obj reordered targetOnlyKeys)"

definition alphabetical_order :: "'a js_object \<Rightarrow> 'a js_object" where
  "alphabetical_order obj = copy_keys obj [] (sort (obj_keys obj))"

definition reorderToMatchSource :: "LocaleFile \<Rightarrow> LocaleFile \<Rightarrow> LocaleFile" where
  "reorderToMatchSource sourceFile targetFile =
     targetFile\<lparr>entries := mirror_order (obj_keys (entries sourceFile)) (entries targetFile)\<rparr>"

definition reorderAlphabetically :: "LocaleFile \<Rightarrow> LocaleFile" where
  "reorderAlphabetically targetFile =
     targetFile\<lparr>entries := alphabetical_order (entries targetFile)\<rparr>"

text \<open>
  The loop of \<^verbatim>\<open>autoFix\<close> over the issues, on the copy \<open>fixedFile\<close> and the list
  \<open>appliedFixes\<close>. An exception leaves the loop and the call.
\<close>

fun fixLoop :: "LocalzConfig \<Rightarrow> LocaleFile \<Rightarrow> ValidationIssue list
    \<Rightarrow> LocaleFile \<times> Fix list \<Rightarrow> error + (LocaleFile \<times> Fix list)" where
  "fixLoop config sourceFile [] st = Inr st"
| "fixLoop config sourceFile (issue # rest) (fixedFile, appliedFixes) =
     (case generateFix sourceFile issue fixedFile of
        Inl e \<Rightarrow> Inl e
      | Inr fix \<Rightarrow>
          if doAutoFix config then
            (case applyFix sourceFile fix fixedFile of
               Inl e \<Rightarrow> Inl e
             | Inr fixedFile' \<Rightarrow>
                 fixLoop config sourceFile rest (fixedFile', appliedFixes @ [fix]))
          else fixLoop config sourceFile rest (fixedFile, appliedFixes))"

text \<open>\<^verbatim>\<open>autoFix\<close>; values are immutable here, so \<^verbatim>\<open>lodash.cloneDeep\<close> is the identity.\<close>

definition autoFix :: "LocalzConfig \<Rightarrow> LocaleFile \<Rightarrow> LocaleFile \<Rightarrow> ValidationIssue list
    \<Rightarrow> error + (LocaleFile \<times> Fix list)" where
  "autoFix config sourceFile targetFile issues =
     (case fixLoop config sourceFile issues (targetFile, []) of
        Inl e \<Rightarrow> Inl e
      | Inr (fixedFile, appliedFixes) \<Rightarrow>
          Inr (case preferOrder config of
                 Some MirrorSource \<Rightarrow> reorderToMatchSource sourceFile fixedFile
               | Some Alphabetical \<Rightarrow> reorderAlphabetically fixedFile
               | None \<Rightarrow> fixedFile,
               appliedFixes))"

section \<open>The key/value format adapter (\<^verbatim>\<open>src/core/universal-parser.ts\<close>)\<close>


text \<open>The own enumerable properties that \<^verbatim>\<open>Object.assign\<close> copies from a source value.\<close>

definition own_props :: "json \<Rightarrow> json js_object" where
  "own_props j =
     (case j of
        JObj kvs \<Rightarrow> kvs
      | JArr xs \<Rightarrow> zip (map nat_str [0 ..< length xs]) xs
      | JStr s \<Rightarrow> zip (map nat_str [0 ..< length s]) (map (\<lambda>c. JStr [c]) s)
      | _ \<Rightarrow> [])"

definition object_assign :: "json js_object \<Rightarrow> json \<Rightarrow> json js_object" where
  "object_assign target source = foldl (\<lambda>acc (k, v). obj_set k v acc) target (own_props source)"




text \<open>The metadata object that the writers build for an entry.\<close>

definition entryMetadata :: "LocaleEntry \<Rightarrow> json js_object" where
  "entryMetadata entry =
     (let m1 = (if truthy_opt (description entry)
                then obj_set ''description'' (the (description entry)) [] else []);
          m2 = (if truthy_opt (placeholders entry)
                then obj_set ''placeholders'' (the (placeholders entry)) m1 else m1)
      in if truthy_opt (metadata entry) then object_assign m2 (the (metadata entry)) else m2)"

definition emitEntry :: "bool \<Rightarrow> LocaleEntry js_object \<Rightarrow> json js_object \<Rightarrow> string
    \<Rightarrow> json js_object" where
  "emitEntry withMetadata es output k =
     (case obj_get es k of
        None \<Rightarrow> output
      | Some entry \<Rightarrow>
          (let output' = obj_set k (JStr (val entry)) output
           in if withMetadata
                 \<and> (truthy_opt (metadata entry) \<or> truthy_opt (description entry)
                    \<or> truthy_opt (placeholders entry))
                 \<and> length (obj_keys (entryMetadata entry)) > 0
              then obj_set (CHR ''@'' # k) (JObj (entryMetadata entry)) output'
              else output'))"

text \<open>\<^verbatim>\<open>generateJsonContent\<close>: \<open>generateJsonOutput\<close> is the object \<^verbatim>\<open>output\<close> that the
  function hands to \<^verbatim>\<open>JSON.stringify\<close>.\<close>

definition generateJsonOutput :: "LocalzConfig \<Rightarrow> LocaleFile \<Rightarrow> json js_object" where
  "generateJsonOutput config localeFile =
     (let output0 = (if format localeFile = Arb
                        \<and> truthy_opt (obj_get (raw localeFile) ''@@locale'')
                     then obj_set ''@@locale'' (the (obj_get (raw localeFile) ''@@locale'')) []
                     else []);
          keys0 = obj_keys (entries localeFile);
          keys = (if preferOrder config = Some Alphabetical then sort keys0 else keys0)
      in foldl (emitEntry (format localeFile = Arb) (entries localeFile)) output0 keys)"

definition generateJsonContent :: "(json \<Rightarrow> string) \<Rightarrow> LocalzConfig \<Rightarrow> LocaleFile \<Rightarrow> string" where
  "generateJsonContent stringify config localeFile =
     stringify (JObj (generateJsonOutput config localeFile)) @ [CHR 0x0A]"

section \<open>The patch generator\<close>

text \<open>\<^verbatim>\<open>Patch\<close>; \<open>patch_path\<close> and \<open>patch_format\<close> are its \<^verbatim>\<open>path\<close> and \<^verbatim>\<open>format\<close>.\<close>

datatype PatchFormat = Unified | Git

record Patch =
  patch_path :: string
  diff :: string
  patch_format :: PatchFormat

definition serializeARB :: "(json \<Rightarrow> string) \<Rightarrow> LocaleFile \<Rightarrow> string" where
  "serializeARB stringify file =
     (let output0 = (if truthy_opt (obj_get (raw file) ''@@locale'')
                     then obj_set ''@@locale'' (the (obj_get (raw file) ''@@locale'')) []
                     else []);
          keys = sort (obj_keys (entries file))
      in stringify (JObj (foldl (emitEntry True (entries file)) output0 keys)) @ [CHR 0x0A])"

definition hasChanges :: "(json \<Rightarrow> string) \<Rightarrow> LocaleFile \<Rightarrow> LocaleFile \<Rightarrow> bool" where
  "hasChanges stringify originalFile modifiedFile =
     (serializeARB stringify originalFile \<noteq> serializeARB stringify modifiedFile)"

text \<open>
  \<^verbatim>\<open>createTwoFilesPatch\<close> of the library \<^verbatim>\<open>diff\<close> is a parameter: it takes the two paths
  and the two contents (the headers and the context of 3 lines are constants of the call).
\<close>

definition generatePatch ::
  "(json \<Rightarrow> string) \<Rightarrow> (string \<Rightarrow> string \<Rightarrow> string \<Rightarrow> string \<Rightarrow> string)
     \<Rightarrow> LocaleFile \<Rightarrow> LocaleFile \<Rightarrow> Patch" where
  "generatePatch stringify createTwoFilesPatch originalFile modifiedFile =
     \<lparr>patch_path = path modifiedFile,
      diff = createTwoFilesPatch (path originalFile) (path modifiedFile)
               (serializeARB stringify originalFile) (serializeARB stringify modifiedFile),
      patch_format = Unified\<rparr>"

text \<open>The loop of \<^verbatim>\<open>generatePatches\<close> over the \<^verbatim>\<open>Map\<close> of modified files.\<close>

fun patchLoop ::
  "(json \<Rightarrow> string) \<Rightarrow> (string \<Rightarrow> string \<Rightarrow> string \<Rightarrow> string \<Rightarrow> string)
     \<Rightarrow> (string \<times> LocaleFile) list \<Rightarrow> (string \<times> LocaleFile) list \<Rightarrow> Patch list
     \<Rightarrow> Patch list" where
  "patchLoop stringify createTwoFilesPatch originalFiles [] patches = patches"
| "patchLoop stringify createTwoFilesPatch originalFiles ((loc, modifiedFile) # rest) patches =
     (case map_of originalFiles loc of
        None \<Rightarrow> patchLoop stringify createTwoFilesPatch originalFiles rest patches
      | Some originalFile \<Rightarrow>
          if hasChanges stringify originalFile modifiedFile
          then patchLoop stringify createTwoFilesPatch originalFiles rest
                 (patches @ [generatePatch stringify createTwoFilesPatch
                               originalFile modifiedFile])
          else patchLoop stringify createTwoFilesPatch originalFiles rest patches)"

definition generatePatches ::
  "(json \<Rightarrow> string) \<Rightarrow> (string \<Rightarrow> string \<Rightarrow> string \<Rightarrow> string \<Rightarrow> string)
     \<Rightarrow> (string \<times> LocaleFile) list \<Rightarrow> (string \<times> LocaleFile) list \<Rightarrow> Patch list" where
  "generatePatches stringify createTwoFilesPatch originalFiles modifiedFiles =
     patchLoop stringify createTwoFilesPatch originalFiles modifiedFiles []"

section \<open>Example documents\<close>

definition plain_entry :: "string \<Rightarrow> string \<Rightarrow> string \<times> LocaleEntry" where
  "plain_entry k v =
     (k, \<lparr>key = k, val = v, metadata = None, description = None, placeholders = None,
          econtext = None, tags = None\<rparr>)"

definition plain_file :: "string \<Rightarrow> (string \<times> string) list \<Rightarrow> LocaleFile" where
  "plain_file loc kvs =
     \<lparr>file_locale = loc, path = loc @ ''.json'', format = Json,
      entries = map (\<lambda>(k, v). plain_entry k v) kvs,
      raw = map (\<lambda>(k, v). (k, JStr v)) kvs, lastModified = None\<rparr>"

text \<open>The place of each check in \<^verbatim>\<open>validateTarget\<close>.\<close>

definition pass_rank :: "IssueType \<Rightarrow> nat" where
  "pass_rank t =
     (case t of
        Missing \<Rightarrow> 0 | Extra \<Rightarrow> 1 | Duplicate \<Rightarrow> 2 | PlaceholderMismatch \<Rightarrow> 3
      | IcuError \<Rightarrow> 4 | Formatting \<Rightarrow> 5)"



text \<open>
  A serialiser for the examples, in place of \<^verbatim>\<open>JSON.stringify\<close>: compact, with no escapes
  in strings.
\<close>

fun compact_json :: "json \<Rightarrow> string" where
  "compact_json JNull = ''null''"
| "compact_json (JBool b) = (if b then ''true'' else ''false'')"
| "compact_json (JNum n) = int_str n"
| "compact_json (JStr s) = dq @ s @ dq"
| "compact_json (JArr xs) = ''['' @ join '','' (map compact_json xs) @ '']''"
| "compact_json (JObj kvs) =
     ''{'' @ join '','' (map (\<lambda>(k, v). dq @ k @ dq @ '':'' @ compact_json v) kvs) @ ''}''"

text \<open>A stand-in for \<^verbatim>\<open>createTwoFilesPatch\<close> in the examples: both contents, one after the
  other.\<close>

definition two_contents :: "string \<Rightarrow> string \<Rightarrow> string \<Rightarrow> string \<Rightarrow> string" where
  "two_contents oldPath newPath oldContent newContent =
     ''--- '' @ oldPath @ [CHR 0x0A] @ ''+++ '' @ newPath @ [CHR 0x0A]
     @ oldContent @ newContent"






section \<open>The fixer on a store of objects\<close>

text \<open>
  \<^verbatim>\<open>autoFix\<close> works on objects: it clones the target, then assigns to and deletes from the
  properties of the clone. To say what it leaves alone, the objects live in a store, a
  list of objects addressed by position. A document object holds the addresses of its
  \<^verbatim>\<open>entries\<close> object and its \<^verbatim>\<open>raw\<close> object, and an \<^verbatim>\<open>entries\<close> object holds the
  address of an entry object under each key. The attribute objects of an entry
  (\<^verbatim>\<open>metadata\<close>, \<^verbatim>\<open>placeholders\<close>) and the values inside \<^verbatim>\<open>raw\<close> are shared between
  documents by reference, but the fixer never writes to them; they are values here.
\<close>

type_synonym addr = nat

datatype obj =
    FileObj string string LocaleFileFormat addr addr "nat option"
  | EntriesObj "addr js_object"
  | EntryObj LocaleEntry
  | RawObj "json js_object"

type_synonym store = "obj list"

definition new_obj :: "obj \<Rightarrow> store \<Rightarrow> addr \<times> store" where
  "new_obj ob st = (length st, st @ [ob])"

definition get_obj :: "store \<Rightarrow> addr \<Rightarrow> obj option" where
  "get_obj st a = (if a < length st then Some (st ! a) else None)"

definition put_obj :: "addr \<Rightarrow> obj \<Rightarrow> store \<Rightarrow> store" where
  "put_obj a ob st = st[a := ob]"

text \<open>The document that an address denotes in a store.\<close>

fun load_entries :: "store \<Rightarrow> addr js_object \<Rightarrow> LocaleEntry js_object option" where
  "load_entries st [] = Some []"
| "load_entries st ((k, a) # refs) =
     (case get_obj st a of
        Some (EntryObj e) \<Rightarrow>
          (case load_entries st refs of None \<Rightarrow> None | Some es \<Rightarrow> Some ((k, e) # es))
      | _ \<Rightarrow> None)"

definition load_file :: "store \<Rightarrow> addr \<Rightarrow> LocaleFile option" where
  "load_file st fa =
     (case get_obj st fa of
        Some (FileObj loc p fmt er rr lm) \<Rightarrow>
          (case get_obj st er of
             Some (EntriesObj refs) \<Rightarrow>
               (case load_entries st refs of
                  None \<Rightarrow> None
                | Some es \<Rightarrow>
                    (case get_obj st rr of
                       Some (RawObj r) \<Rightarrow>
                         Some \<lparr>file_locale = loc, path = p, format = fmt, entries = es,
                               raw = r, lastModified = lm\<rparr>
                     | _ \<Rightarrow> None))
           | _ \<Rightarrow> None)
      | _ \<Rightarrow> None)"

text \<open>New objects for a document: one for each entry, one for \<^verbatim>\<open>entries\<close>, one for
  \<^verbatim>\<open>raw\<close> and one for the document.\<close>

fun store_entries :: "LocaleEntry js_object \<Rightarrow> store \<Rightarrow> addr js_object \<times> store" where
  "store_entries [] st = ([], st)"
| "store_entries ((k, e) # es) st =
     (case new_obj (EntryObj e) st of
        (a, st1) \<Rightarrow> (case store_entries es st1 of (refs, st2) \<Rightarrow> ((k, a) # refs, st2)))"

definition store_file :: "LocaleFile \<Rightarrow> store \<Rightarrow> addr \<times> store" where
  "store_file f st =
     (case store_entries (entries f) st of
        (refs, st1) \<Rightarrow>
          (case new_obj (EntriesObj refs) st1 of
             (er, st2) \<Rightarrow>
               (case new_obj (RawObj (raw f)) st2 of
                  (rr, st3) \<Rightarrow>
                    new_obj (FileObj (file_locale f) (path f) (format f) er rr (lastModified f))
                      st3)))"

text \<open>\<^verbatim>\<open>lodash.cloneDeep(targetFile)\<close>: a copy of the document in new objects.\<close>

definition cloneDeep :: "addr \<Rightarrow> store \<Rightarrow> (error + addr) \<times> store" where
  "cloneDeep fa st =
     (case load_file st fa of
        None \<Rightarrow> (Inl TypeError, st)
      | Some f \<Rightarrow> (case store_file f st of (fa', st') \<Rightarrow> (Inr fa', st')))"

text \<open>\<^verbatim>\<open>generateFix\<close> reads the source document and the document being fixed.\<close>

definition generateFixS :: "addr \<Rightarrow> ValidationIssue \<Rightarrow> addr \<Rightarrow> store \<Rightarrow> error + Fix" where
  "generateFixS src issue fa st =
     (case load_file st src of
        None \<Rightarrow> Inl TypeError
      | Some sourceFile \<Rightarrow>
          (case load_file st fa of
             None \<Rightarrow> Inl TypeError
           | Some targetFile \<Rightarrow> generateFix sourceFile issue targetFile))"

text \<open>\<^verbatim>\<open>applyFix\<close>: the assignments and deletions on the objects of the document at
  \<open>fa\<close>.\<close>

definition applyFixS :: "addr \<Rightarrow> Fix \<Rightarrow> addr \<Rightarrow> store \<Rightarrow> (error + unit) \<times> store" where
  "applyFixS src fx fa st =
     (case get_obj st fa of
        Some (FileObj loc p fmt er rr lm) \<Rightarrow>
          (case get_obj st er of
             Some (EntriesObj refs) \<Rightarrow>
               (case fix_type fx of
                  AddMissing \<Rightarrow>
                    (case load_file st src of
                       None \<Rightarrow> (Inl TypeError, st)
                     | Some sourceFile \<Rightarrow>
                         (case obj_get (entries sourceFile) (fix_key fx) of
                            None \<Rightarrow> (Inl TypeError, st)
                          | Some sourceEntry \<Rightarrow>
                              (case new_obj
                                      (EntryObj
                                         \<lparr>key = fix_key fx,
                                          val = (if truthy_str (newValue fx)
                                                 then the (newValue fx) else ''TODO''),
                                          metadata = metadata sourceEntry,
                                          description = description sourceEntry,
                                          placeholders = placeholders sourceEntry,
                                          econtext = None, tags = None\<rparr>) st of
                                 (ea, st1) \<Rightarrow>
                                   (Inr (),
                                    put_obj er (EntriesObj (obj_set (fix_key fx) ea refs))
                                      st1))))
                | RemoveExtra \<Rightarrow>
                    (case get_obj st rr of
                       Some (RawObj r) \<Rightarrow>
                         (Inr (),
                          put_obj rr (RawObj (obj_delete (CHR ''@'' # fix_key fx)
                                                (obj_delete (fix_key fx) r)))
                            (put_obj er (EntriesObj (obj_delete (fix_key fx) refs)) st))
                     | _ \<Rightarrow> (Inl TypeError, st))
                | RemoveDuplicate \<Rightarrow>
                    (case get_obj st rr of
                       Some (RawObj r) \<Rightarrow>
                         (Inr (),
                          put_obj rr (RawObj (obj_delete (CHR ''@'' # fix_key fx)
                                                (obj_delete (fix_key fx) r)))
                            (put_obj er (EntriesObj (obj_delete (fix_key fx) refs)) st))
                     | _ \<Rightarrow> (Inl TypeError, st))
                | _ \<Rightarrow>
                    (case obj_get refs (fix_key fx) of
                       None \<Rightarrow> (Inr (), st)
                     | Some ea \<Rightarrow>
                         if truthy_str (newValue fx) then
                           (case get_obj st ea of
                              Some (EntryObj e) \<Rightarrow>
                                (Inr (), put_obj ea (EntryObj (e\<lparr>val := the (newValue fx)\<rparr>)) st)
                            | _ \<Rightarrow> (Inl TypeError, st))
                         else (Inr (), st)))
           | _ \<Rightarrow> (Inl TypeError, st))
      | _ \<Rightarrow> (Inl TypeError, st))"

text \<open>The reorderings fill a new \<^verbatim>\<open>entries\<close> object and assign it to the document.\<close>

definition reorderS :: "(addr js_object \<Rightarrow> addr js_object) \<Rightarrow> addr \<Rightarrow> store
    \<Rightarrow> (error + unit) \<times> store" where
  "reorderS f fa st =
     (case get_obj st fa of
        Some (FileObj loc p fmt er rr lm) \<Rightarrow>
          (case get_obj st er of
             Some (EntriesObj refs) \<Rightarrow>
               (case new_obj (EntriesObj (f refs)) st of
                  (er', st1) \<Rightarrow> (Inr (), put_obj fa (FileObj loc p fmt er' rr lm) st1))
           | _ \<Rightarrow> (Inl TypeError, st))
      | _ \<Rightarrow> (Inl TypeError, st))"

definition reorderToMatchSourceS :: "addr \<Rightarrow> addr \<Rightarrow> store \<Rightarrow> (error + unit) \<times> store" where
  "reorderToMatchSourceS src fa st =
     (case load_file st src of
        None \<Rightarrow> (Inl TypeError, st)
      | Some sourceFile \<Rightarrow> reorderS (mirror_order (obj_keys (entries sourceFile))) fa st)"

definition reorderAlphabeticallyS :: "addr \<Rightarrow> store \<Rightarrow> (error + unit) \<times> store" where
  "reorderAlphabeticallyS fa st = reorderS alphabetical_order fa st"

fun fixLoopS :: "LocalzConfig \<Rightarrow> addr \<Rightarrow> ValidationIssue list \<Rightarrow> addr \<Rightarrow> Fix list \<Rightarrow> store
    \<Rightarrow> (error + Fix list) \<times> store" where
  "fixLoopS config src [] fa appliedFixes st = (Inr appliedFixes, st)"
| "fixLoopS config src (issue # rest) fa appliedFixes st =
     (case generateFixS src issue fa st of
        Inl e \<Rightarrow> (Inl e, st)
      | Inr fx \<Rightarrow>
          if doAutoFix config then
            (case applyFixS src fx fa st of
               (Inl e, st1) \<Rightarrow> (Inl e, st1)
             | (Inr u, st1) \<Rightarrow> fixLoopS config src rest fa (appliedFixes @ [fx]) st1)
          else fixLoopS config src rest fa appliedFixes st)"

text \<open>\<^verbatim>\<open>autoFix\<close> on the store: the result is the address of \<^verbatim>\<open>fixedFile\<close> with the
  applied fixes, or the exception, and the store after the call.\<close>

definition autoFixS :: "LocalzConfig \<Rightarrow> addr \<Rightarrow> addr \<Rightarrow> ValidationIssue list \<Rightarrow> store
    \<Rightarrow> (error + (addr \<times> Fix list)) \<times> store" where
  "autoFixS config src tgt issues st =
     (case cloneDeep tgt st of
        (Inl e, st1) \<Rightarrow> (Inl e, st1)
      | (Inr fa, st1) \<Rightarrow>
          (case fixLoopS config src issues fa [] st1 of
             (Inl e, st2) \<Rightarrow> (Inl e, st2)
           | (Inr appliedFixes, st2) \<Rightarrow>
               (case preferOrder config of
                  None \<Rightarrow> (Inr (fa, appliedFixes), st2)
                | Some MirrorSource \<Rightarrow>
                    (case reorderToMatchSourceS src fa st2 of
                       (Inl e, st3) \<Rightarrow> (Inl e, st3)
                     | (Inr u, st3) \<Rightarrow> (Inr (fa, appliedFixes), st3))
                | Some Alphabetical \<Rightarrow>
                    (case reorderAlphabeticallyS fa st2 of
                       (Inl e, st3) \<Rightarrow> (Inl e, st3)
                     | (Inr u, st3) \<Rightarrow> (Inr (fa, appliedFixes), st3)))))"

text \<open>
  A well-formed document at \<open>fa\<close> whose objects all lie at or above an address \<open>n\<close>: the
  document object, its \<^verbatim>\<open>entries\<close> and \<^verbatim>\<open>raw\<close> objects, and one entry object for each
  key, no two keys sharing one.
\<close>

definition is_entry :: "store \<Rightarrow> addr \<Rightarrow> bool" where
  "is_entry st a = (case get_obj st a of Some (EntryObj e) \<Rightarrow> True | _ \<Rightarrow> False)"

definition owned :: "nat \<Rightarrow> store \<Rightarrow> addr \<Rightarrow> bool" where
  "owned n st fa =
     (case get_obj st fa of
        Some (FileObj loc p fmt er rr lm) \<Rightarrow>
          (case get_obj st er of
             Some (EntriesObj refs) \<Rightarrow>
               (case get_obj st rr of
                  Some (RawObj r) \<Rightarrow>
                    n \<le> fa \<and> n \<le> er \<and> n \<le> rr
                    \<and> list_all (\<lambda>(k, a). n \<le> a \<and> is_entry st a) refs
                    \<and> distinct (map fst refs) \<and> distinct (map snd refs)
                | _ \<Rightarrow> False)
           | _ \<Rightarrow> False)
      | _ \<Rightarrow> False)"

text \<open>The entry object at an address, and an object with a function applied to its values.\<close>

definition the_entry :: "store \<Rightarrow> addr \<Rightarrow> LocaleEntry" where
  "the_entry st a =
     (case get_obj st a of
        Some (EntryObj e) \<Rightarrow> e
      | _ \<Rightarrow> \<lparr>key = [], val = [], metadata = None, description = None, placeholders = None,
               econtext = None, tags = None\<rparr>)"

definition map_vals :: "('a \<Rightarrow> 'b) \<Rightarrow> 'a js_object \<Rightarrow> 'b js_object" where
  "map_vals g obj = map (\<lambda>(k, v). (k, g v)) obj"

text \<open>The address \<open>fa\<close> holds a well-formed document, with its objects at or above \<open>n\<close>,
  that reads as the document \<open>F\<close>.\<close>

definition denotes :: "nat \<Rightarrow> store \<Rightarrow> addr \<Rightarrow> LocaleFile \<Rightarrow> bool" where
  "denotes n st fa F = (owned n st fa \<and> load_file st fa = Some F)"

text \<open>A store with an English source document at address 4 and a Spanish target document
  at address 9.\<close>

definition example_store :: store where
  "example_store =
     snd (store_file (plain_file ''es'' [(''old'', ''Viejo''), (''bye'', '' Adios '')])
       (snd (store_file (plain_file ''en'' [(''greeting'', ''Hello''), (''bye'', ''Bye'')]) [])))"

section \<open>Properties\<close>

subsection \<open>What each check emits\<close>

lemma issue_type_checkMissingKeys:
  "i \<in> set (checkMissingKeys S T) \<Longrightarrow> issue_type i = Missing"
  by (auto simp: checkMissingKeys_def)

lemma issue_type_checkExtraKeys:
  "i \<in> set (checkExtraKeys S T) \<Longrightarrow> issue_type i = Extra"
  by (auto simp: checkExtraKeys_def)

lemma issue_type_checkDuplicates:
  "i \<in> set (checkDuplicates T) \<Longrightarrow> issue_type i = Duplicate"
  by (auto simp: checkDuplicates_def split: list.splits)

lemma issue_type_checkPlaceholderEntry:
  "i \<in> set (checkPlaceholderEntry T k se) \<Longrightarrow> issue_type i = PlaceholderMismatch"
  by (cases "obj_get (entries T) k") (auto simp: checkPlaceholderEntry_def Let_def split: if_splits)

lemma issue_type_checkPlaceholders:
  "i \<in> set (checkPlaceholders S T) \<Longrightarrow> issue_type i = PlaceholderMismatch"
  by (auto simp: checkPlaceholders_def dest: issue_type_checkPlaceholderEntry)

lemma issue_type_checkICUEntry:
  "i \<in> set (checkICUEntry pI sf T k se) \<Longrightarrow> issue_type i = IcuError"
  by (cases "obj_get (entries T) k"; cases "pI (val se)"; cases "pI (val (the (obj_get (entries T) k)))")
     (auto simp: checkICUEntry_def split: if_splits)

lemma issue_type_checkICUMessages:
  "i \<in> set (checkICUMessages pI sf S T) \<Longrightarrow> issue_type i = IcuError"
  by (auto simp: checkICUMessages_def dest: issue_type_checkICUEntry)

lemma issue_type_checkFormatting:
  "i \<in> set (checkFormatting T) \<Longrightarrow> issue_type i = Formatting"
  by (auto simp: checkFormatting_def checkFormattingEntry_def split: if_splits)

lemma filter_none: "(\<And>x. x \<in> set xs \<Longrightarrow> \<not> P x) \<Longrightarrow> filter P xs = []"
  by (induction xs) auto

lemma filter_all: "(\<And>x. x \<in> set xs \<Longrightarrow> P x) \<Longrightarrow> filter P xs = xs"
  by (induction xs) auto

lemma missing_of_validateTarget:
  "filter (\<lambda>i. issue_type i = Missing) (validateTarget pI sf S T) = checkMissingKeys S T"
  unfolding validateTarget_def filter_append
  by (simp add: filter_all [of _ "\<lambda>i. issue_type i = Missing", OF issue_type_checkMissingKeys]
                filter_none [of "checkExtraKeys S T" "\<lambda>i. issue_type i = Missing"]
                filter_none [of "checkDuplicates T" "\<lambda>i. issue_type i = Missing"]
                filter_none [of "checkPlaceholders S T" "\<lambda>i. issue_type i = Missing"]
                filter_none [of "checkICUMessages pI sf S T" "\<lambda>i. issue_type i = Missing"]
                filter_none [of "checkFormatting T" "\<lambda>i. issue_type i = Missing"]
                issue_type_checkExtraKeys issue_type_checkDuplicates issue_type_checkPlaceholders
                issue_type_checkICUMessages issue_type_checkFormatting)


lemma extra_of_validateTarget:
  "filter (\<lambda>i. issue_type i = Extra) (validateTarget pI sf S T) = checkExtraKeys S T"
  unfolding validateTarget_def filter_append
  by (simp add: filter_all [of _ "\<lambda>i. issue_type i = Extra", OF issue_type_checkExtraKeys]
                filter_none [of "checkMissingKeys S T" "\<lambda>i. issue_type i = Extra"]
                filter_none [of "checkDuplicates T" "\<lambda>i. issue_type i = Extra"]
                filter_none [of "checkPlaceholders S T" "\<lambda>i. issue_type i = Extra"]
                filter_none [of "checkICUMessages pI sf S T" "\<lambda>i. issue_type i = Extra"]
                filter_none [of "checkFormatting T" "\<lambda>i. issue_type i = Extra"]
                issue_type_checkMissingKeys issue_type_checkDuplicates issue_type_checkPlaceholders
                issue_type_checkICUMessages issue_type_checkFormatting)

lemma keys_checkMissingKeys:
  "map issue_key (checkMissingKeys S T)
     = filter (\<lambda>k. k \<notin> set (obj_keys (entries T))) (obj_keys (entries S))"
  by (simp add: checkMissingKeys_def obj_keys_def filter_map comp_def case_prod_unfold)

lemma keys_checkExtraKeys:
  "map issue_key (checkExtraKeys S T)
     = filter (\<lambda>k. k \<notin> set (obj_keys (entries S))) (obj_keys (entries T))"
  by (simp add: checkExtraKeys_def obj_keys_def filter_map comp_def case_prod_unfold)

lemma obj_get_of_member:
  "distinct (obj_keys obj) \<Longrightarrow> (k, e) \<in> set obj \<Longrightarrow> obj_get obj k = Some e"
  by (simp add: obj_get_def obj_keys_def)

lemma checkMissingKeys_fields:
  assumes "distinct (obj_keys (entries S))" and "i \<in> set (checkMissingKeys S T)"
  shows "severity i = SevError
         \<and> sourceValue i = map_option val (obj_get (entries S) (issue_key i))"
proof -
  from assms(2) obtain k e where ke: "(k, e) \<in> set (entries S)"
    and i: "i = \<lparr>issue_type = Missing, issue_locale = file_locale T, issue_key = k,
             message = ''Key '' @ dq @ k @ dq @ '' is missing'',
             severity = SevError, sourceValue = Some (val e),
             targetValue = None, suggestion = None\<rparr>"
    by (auto simp: checkMissingKeys_def)
  from obj_get_of_member [OF assms(1) ke] i show ?thesis by simp
qed

lemma checkExtraKeys_fields:
  assumes "distinct (obj_keys (entries T))" and "i \<in> set (checkExtraKeys S T)"
  shows "severity i = SevWarning
         \<and> targetValue i = map_option val (obj_get (entries T) (issue_key i))"
proof -
  from assms(2) obtain k e where ke: "(k, e) \<in> set (entries T)"
    and i: "i = \<lparr>issue_type = Extra, issue_locale = file_locale T, issue_key = k,
             message = ''Key '' @ dq @ k @ dq @ '' not in source locale'',
             severity = SevWarning, sourceValue = None,
             targetValue = Some (val e), suggestion = None\<rparr>"
    by (auto simp: checkExtraKeys_def)
  from obj_get_of_member [OF assms(1) ke] i show ?thesis by simp
qed

text \<open>
  Claim C3. For a source document and a target document (the keys of an object are
  distinct), validation emits exactly one issue of type \<open>Missing\<close> for each key of the
  source that the target lacks, with severity error and the value of the source entry as
  \<open>sourceValue\<close>, exactly one issue of type \<open>Extra\<close> with severity warning for each key of
  the target that the source lacks, and no other issue of these two types.
\<close>

theorem missing_extra_symmetry:
  assumes dS: "distinct (obj_keys (entries S))" and dT: "distinct (obj_keys (entries T))"
  shows "distinct (map issue_key (filter (\<lambda>i. issue_type i = Missing) (validateTarget pI sf S T)))
    \<and> set (map issue_key (filter (\<lambda>i. issue_type i = Missing) (validateTarget pI sf S T)))
        = set (obj_keys (entries S)) - set (obj_keys (entries T))
    \<and> (\<forall>i \<in> set (validateTarget pI sf S T). issue_type i = Missing \<longrightarrow>
          severity i = SevError
          \<and> sourceValue i = map_option val (obj_get (entries S) (issue_key i))
          \<and> obj_get (entries S) (issue_key i) \<noteq> None)
    \<and> distinct (map issue_key (filter (\<lambda>i. issue_type i = Extra) (validateTarget pI sf S T)))
    \<and> set (map issue_key (filter (\<lambda>i. issue_type i = Extra) (validateTarget pI sf S T)))
        = set (obj_keys (entries T)) - set (obj_keys (entries S))
    \<and> (\<forall>i \<in> set (validateTarget pI sf S T). issue_type i = Extra \<longrightarrow>
          severity i = SevWarning)"
proof -
  let ?V = "validateTarget pI sf S T"
  have m: "filter (\<lambda>i. issue_type i = Missing) ?V = checkMissingKeys S T"
    by (rule missing_of_validateTarget)
  have e: "filter (\<lambda>i. issue_type i = Extra) ?V = checkExtraKeys S T"
    by (rule extra_of_validateTarget)
  have 1: "distinct (map issue_key (checkMissingKeys S T))"
    using dS by (simp add: keys_checkMissingKeys)
  have 2: "set (map issue_key (checkMissingKeys S T))
             = set (obj_keys (entries S)) - set (obj_keys (entries T))"
    unfolding keys_checkMissingKeys by auto
  have 3: "\<forall>i \<in> set ?V. issue_type i = Missing \<longrightarrow>
          severity i = SevError
          \<and> sourceValue i = map_option val (obj_get (entries S) (issue_key i))
          \<and> obj_get (entries S) (issue_key i) \<noteq> None"
  proof (intro ballI impI)
    fix i assume "i \<in> set ?V" and "issue_type i = Missing"
    then have "i \<in> set (filter (\<lambda>i. issue_type i = Missing) ?V)" by simp
    then have mem: "i \<in> set (checkMissingKeys S T)" unfolding m .
    then have "issue_key i \<in> set (map issue_key (checkMissingKeys S T))" by simp
    then have "issue_key i \<in> set (obj_keys (entries S))" unfolding 2 by simp
    then have "obj_get (entries S) (issue_key i) \<noteq> None"
      by (simp add: obj_get_def obj_keys_def map_of_eq_None_iff)
    with checkMissingKeys_fields [OF dS mem]
    show "severity i = SevError
          \<and> sourceValue i = map_option val (obj_get (entries S) (issue_key i))
          \<and> obj_get (entries S) (issue_key i) \<noteq> None" by simp
  qed
  have 4: "distinct (map issue_key (checkExtraKeys S T))"
    using dT by (simp add: keys_checkExtraKeys)
  have 5: "set (map issue_key (checkExtraKeys S T))
             = set (obj_keys (entries T)) - set (obj_keys (entries S))"
    unfolding keys_checkExtraKeys by auto
  have 6: "\<forall>i \<in> set ?V. issue_type i = Extra \<longrightarrow> severity i = SevWarning"
  proof (intro ballI impI)
    fix i assume "i \<in> set ?V" and "issue_type i = Extra"
    then have "i \<in> set (filter (\<lambda>i. issue_type i = Extra) ?V)" by simp
    then have mem: "i \<in> set (checkExtraKeys S T)" unfolding e .
    with checkExtraKeys_fields [OF dT mem] show "severity i = SevWarning" by simp
  qed
  show ?thesis unfolding m e using 1 2 3 4 5 6 by blast
qed

theorem missing_extra_symmetry_witness:
  "distinct (obj_keys (entries (plain_file ''en'' [(''greeting'', ''Hello {name}''), (''bye'', ''Bye'')])))
   \<and> distinct (obj_keys (entries (plain_file ''es'' [(''bye'', ''Adios''), (''old'', ''x'')])))
   \<and> set (map issue_key (filter (\<lambda>i. issue_type i = Missing)
         (validateTarget (\<lambda>v. Inl []) (\<lambda>j. [])
            (plain_file ''en'' [(''greeting'', ''Hello {name}''), (''bye'', ''Bye'')])
            (plain_file ''es'' [(''bye'', ''Adios''), (''old'', ''x'')])))) = {''greeting''}
   \<and> set (map issue_key (filter (\<lambda>i. issue_type i = Extra)
         (validateTarget (\<lambda>v. Inl []) (\<lambda>j. [])
            (plain_file ''en'' [(''greeting'', ''Hello {name}''), (''bye'', ''Bye'')])
            (plain_file ''es'' [(''bye'', ''Adios''), (''old'', ''x'')])))) = {''old''}"
proof -
  have d1: "distinct (obj_keys (entries (plain_file ''en'' [(''greeting'', ''Hello {name}''), (''bye'', ''Bye'')])))"
    by (simp add: plain_file_def plain_entry_def obj_keys_def)
  have d2: "distinct (obj_keys (entries (plain_file ''es'' [(''bye'', ''Adios''), (''old'', ''x'')])))"
    by (simp add: plain_file_def plain_entry_def obj_keys_def)
  have k1: "set (obj_keys (entries (plain_file ''en'' [(''greeting'', ''Hello {name}''), (''bye'', ''Bye'')])))
            - set (obj_keys (entries (plain_file ''es'' [(''bye'', ''Adios''), (''old'', ''x'')]))) = {''greeting''}"
    by (auto simp: plain_file_def plain_entry_def obj_keys_def)
  have k2: "set (obj_keys (entries (plain_file ''es'' [(''bye'', ''Adios''), (''old'', ''x'')])))
            - set (obj_keys (entries (plain_file ''en'' [(''greeting'', ''Hello {name}''), (''bye'', ''Bye'')]))) = {''old''}"
    by (auto simp: plain_file_def plain_entry_def obj_keys_def)
  from missing_extra_symmetry [OF d1 d2, of "\<lambda>v. Inl []" "\<lambda>j. []"] d1 d2 k1 k2
  show ?thesis by simp
qed

text \<open>
  Claim C1. The fix for a missing key is to keep every brace-delimited token of the source
  value, the name between the braces included. On the source value \<^verbatim>\<open>Hello {name}\<close> the
  fixer, run on the issues of the validator, writes \<^verbatim>\<open>TODO{TODO}\<close>: the pattern
  \<^verbatim>\<open>[^{}]+\<close> also matches the name between the braces, so the braces stay and the
  name is lost.
\<close>

theorem addMissing_loses_placeholder_name:
  "autoFix \<lparr>doAutoFix = True, preferOrder = None\<rparr>
     (plain_file ''en'' [(''greeting'', ''Hello {name}'')]) (plain_file ''es'' [])
     (validateTarget (\<lambda>v. Inl []) (\<lambda>j. [])
        (plain_file ''en'' [(''greeting'', ''Hello {name}'')]) (plain_file ''es'' []))
   = Inr (\<lparr>file_locale = ''es'', path = ''es.json'', format = Json,
           entries = [plain_entry ''greeting'' ''TODO{TODO}''], raw = [], lastModified = None\<rparr>,
          [\<lparr>fix_type = AddMissing, fix_locale = ''es'', fix_key = ''greeting'', oldValue = None,
            newValue = Some ''TODO{TODO}'',
            fix_description = ''Add missing key '' @ dq @ ''greeting'' @ dq
                     @ '' with placeholder structure from source''\<rparr>])"
  by code_simp

lemma placeholder_of_validateTarget:
  "filter (\<lambda>i. issue_type i = PlaceholderMismatch) (validateTarget pI sf S T)
     = checkPlaceholders S T"
  unfolding validateTarget_def filter_append
  by (simp add: filter_all [of _ "\<lambda>i. issue_type i = PlaceholderMismatch",
                            OF issue_type_checkPlaceholders]
                filter_none [of "checkMissingKeys S T" "\<lambda>i. issue_type i = PlaceholderMismatch"]
                filter_none [of "checkExtraKeys S T" "\<lambda>i. issue_type i = PlaceholderMismatch"]
                filter_none [of "checkDuplicates T" "\<lambda>i. issue_type i = PlaceholderMismatch"]
                filter_none [of "checkICUMessages pI sf S T"
                                "\<lambda>i. issue_type i = PlaceholderMismatch"]
                filter_none [of "checkFormatting T" "\<lambda>i. issue_type i = PlaceholderMismatch"]
                issue_type_checkMissingKeys issue_type_checkDuplicates issue_type_checkExtraKeys
                issue_type_checkICUMessages issue_type_checkFormatting)

lemma checkPlaceholderEntry_fields:
  "i \<in> set (checkPlaceholderEntry T k se) \<Longrightarrow> issue_key i = k \<and> severity i = SevError"
  by (cases "obj_get (entries T) k") (auto simp: checkPlaceholderEntry_def Let_def split: if_splits)

lemma checkPlaceholderEntry_empty_iff:
  "obj_get (entries T) k = Some te \<Longrightarrow>
   checkPlaceholderEntry T k se = []
     \<longleftrightarrow> \<not> placeholdersDiffer (extractPlaceholders (val se)) (extractPlaceholders (val te))"
  by (simp add: checkPlaceholderEntry_def Let_def)

lemma placeholdersDiffer_iff:
  "placeholdersDiffer sp tp \<longleftrightarrow> \<not> (length sp = length tp \<and> set sp \<subseteq> set tp)"
  by (auto simp: placeholdersDiffer_def list_all_iff)

lemma checkPlaceholders_key_iff:
  assumes dS: "distinct (obj_keys (entries S))" and s: "obj_get (entries S) k = Some se"
  shows "(\<exists>i \<in> set (checkPlaceholders S T). issue_key i = k)
           \<longleftrightarrow> checkPlaceholderEntry T k se \<noteq> []"
proof
  assume "\<exists>i \<in> set (checkPlaceholders S T). issue_key i = k"
  then obtain i k' se' where mem: "(k', se') \<in> set (entries S)"
    and i: "i \<in> set (checkPlaceholderEntry T k' se')" and k: "issue_key i = k"
    by (auto simp: checkPlaceholders_def)
  from checkPlaceholderEntry_fields [OF i] k have "k' = k" by simp
  with obj_get_of_member [OF dS mem] s have "se' = se" by simp
  with i \<open>k' = k\<close> show "checkPlaceholderEntry T k se \<noteq> []" by auto
next
  assume ne: "checkPlaceholderEntry T k se \<noteq> []"
  then obtain i where i: "i \<in> set (checkPlaceholderEntry T k se)"
    by (cases "checkPlaceholderEntry T k se") auto
  from s have "(k, se) \<in> set (entries S)"
    by (simp add: obj_get_def map_of_SomeD)
  with i have "i \<in> set (checkPlaceholders S T)"
    by (auto simp: checkPlaceholders_def)
  with checkPlaceholderEntry_fields [OF i]
  show "\<exists>i \<in> set (checkPlaceholders S T). issue_key i = k" by blast
qed

text \<open>
  Claim C4. For a key present in the source and in the target, validation emits an issue of
  type \<open>PlaceholderMismatch\<close> for that key if and only if it is not the case that the two
  lists of extracted placeholders have the same length and every placeholder of the source
  occurs among those of the target. Such an issue has severity error. A target whose
  placeholders are those of the source in another order yields no issue, and neither do two
  values without placeholders.
\<close>

theorem placeholder_mismatch_iff:
  assumes dS: "distinct (obj_keys (entries S))"
    and s: "obj_get (entries S) k = Some se" and t: "obj_get (entries T) k = Some te"
  shows "((\<exists>i \<in> set (validateTarget pI sf S T).
              issue_type i = PlaceholderMismatch \<and> issue_key i = k)
          \<longleftrightarrow> \<not> (length (extractPlaceholders (val se)) = length (extractPlaceholders (val te))
                 \<and> set (extractPlaceholders (val se)) \<subseteq> set (extractPlaceholders (val te))))
    \<and> (\<forall>i \<in> set (validateTarget pI sf S T).
          issue_type i = PlaceholderMismatch \<longrightarrow> severity i = SevError)
    \<and> (mset (extractPlaceholders (val se)) = mset (extractPlaceholders (val te)) \<longrightarrow>
          \<not> (\<exists>i \<in> set (validateTarget pI sf S T).
                issue_type i = PlaceholderMismatch \<and> issue_key i = k))
    \<and> (extractPlaceholders (val se) = [] \<and> extractPlaceholders (val te) = [] \<longrightarrow>
          \<not> (\<exists>i \<in> set (validateTarget pI sf S T).
                issue_type i = PlaceholderMismatch \<and> issue_key i = k))"
proof -
  let ?V = "validateTarget pI sf S T"
  let ?sp = "extractPlaceholders (val se)" and ?tp = "extractPlaceholders (val te)"
  have mem: "\<And>i. (i \<in> set ?V \<and> issue_type i = PlaceholderMismatch)
                 \<longleftrightarrow> i \<in> set (checkPlaceholders S T)"
  proof -
    fix i
    have "(i \<in> set ?V \<and> issue_type i = PlaceholderMismatch)
            \<longleftrightarrow> i \<in> set (filter (\<lambda>i. issue_type i = PlaceholderMismatch) ?V)" by simp
    then show "(i \<in> set ?V \<and> issue_type i = PlaceholderMismatch)
                 \<longleftrightarrow> i \<in> set (checkPlaceholders S T)"
      unfolding placeholder_of_validateTarget .
  qed
  have "(\<exists>i \<in> set ?V. issue_type i = PlaceholderMismatch \<and> issue_key i = k)
          \<longleftrightarrow> (\<exists>i \<in> set (checkPlaceholders S T). issue_key i = k)"
    using mem by blast
  also have "\<dots> \<longleftrightarrow> checkPlaceholderEntry T k se \<noteq> []"
    by (rule checkPlaceholders_key_iff [OF dS s])
  also have "\<dots> \<longleftrightarrow> placeholdersDiffer ?sp ?tp"
    using checkPlaceholderEntry_empty_iff [OF t, of se] by blast
  also have "\<dots> \<longleftrightarrow> \<not> (length ?sp = length ?tp \<and> set ?sp \<subseteq> set ?tp)"
    by (rule placeholdersDiffer_iff)
  finally have main: "(\<exists>i \<in> set ?V. issue_type i = PlaceholderMismatch \<and> issue_key i = k)
          \<longleftrightarrow> \<not> (length ?sp = length ?tp \<and> set ?sp \<subseteq> set ?tp)" .
  have sev: "\<forall>i \<in> set ?V. issue_type i = PlaceholderMismatch \<longrightarrow> severity i = SevError"
  proof (intro ballI impI)
    fix i assume "i \<in> set ?V" and "issue_type i = PlaceholderMismatch"
    with mem have "i \<in> set (checkPlaceholders S T)" by blast
    then show "severity i = SevError"
      by (auto simp: checkPlaceholders_def dest: checkPlaceholderEntry_fields)
  qed
  have perm: "mset ?sp = mset ?tp \<longrightarrow> length ?sp = length ?tp \<and> set ?sp \<subseteq> set ?tp"
    by (metis mset_eq_length mset_eq_setD order_refl)
  have none: "?sp = [] \<and> ?tp = [] \<longrightarrow> length ?sp = length ?tp \<and> set ?sp \<subseteq> set ?tp"
    by simp
  from main sev perm none show ?thesis by blast
qed


theorem placeholder_mismatch_iff_witness:
  "distinct (obj_keys (entries (plain_file ''en'' [(''msg'', ''Hi {user}'')])))
   \<and> obj_get (entries (plain_file ''en'' [(''msg'', ''Hi {user}'')])) ''msg''
       = Some (snd (plain_entry ''msg'' ''Hi {user}''))
   \<and> obj_get (entries (plain_file ''es'' [(''msg'', ''Hola {usuario}'')])) ''msg''
       = Some (snd (plain_entry ''msg'' ''Hola {usuario}''))
   \<and> (\<exists>i \<in> set (validateTarget (\<lambda>v. Inl []) (\<lambda>j. [])
                    (plain_file ''en'' [(''msg'', ''Hi {user}'')])
                    (plain_file ''es'' [(''msg'', ''Hola {usuario}'')])).
         issue_type i = PlaceholderMismatch \<and> issue_key i = ''msg'')"
proof -
  have d: "distinct (obj_keys (entries (plain_file ''en'' [(''msg'', ''Hi {user}'')])))"
    by (simp add: plain_file_def plain_entry_def obj_keys_def)
  have s: "obj_get (entries (plain_file ''en'' [(''msg'', ''Hi {user}'')])) ''msg''
       = Some (snd (plain_entry ''msg'' ''Hi {user}''))"
    by (simp add: plain_file_def plain_entry_def obj_get_def)
  have t: "obj_get (entries (plain_file ''es'' [(''msg'', ''Hola {usuario}'')])) ''msg''
       = Some (snd (plain_entry ''msg'' ''Hola {usuario}''))"
    by (simp add: plain_file_def plain_entry_def obj_get_def)
  have e: "set (extractPlaceholders (val (snd (plain_entry ''msg'' ''Hi {user}''))))
           \<subseteq> set (extractPlaceholders (val (snd (plain_entry ''msg'' ''Hola {usuario}''))))
           \<longleftrightarrow> False"
    by (simp add: plain_entry_def)
  from placeholder_mismatch_iff [OF d s t, of "\<lambda>v. Inl []" "\<lambda>j. []"] e
  have "\<exists>i \<in> set (validateTarget (\<lambda>v. Inl []) (\<lambda>j. [])
                    (plain_file ''en'' [(''msg'', ''Hi {user}'')])
                    (plain_file ''es'' [(''msg'', ''Hola {usuario}'')])).
         issue_type i = PlaceholderMismatch \<and> issue_key i = ''msg''"
    by blast
  with d s t show ?thesis by blast
qed

lemma map_const_replicate: "(\<And>x. x \<in> set xs \<Longrightarrow> f x = c) \<Longrightarrow> map f xs = replicate (length xs) c"
  by (induction xs) auto

lemma pass_order_validateTarget:
  "sorted (map (\<lambda>i. pass_rank (issue_type i)) (validateTarget pI sf S T))"
proof -
  have a: "map (\<lambda>i. pass_rank (issue_type i)) (checkMissingKeys S T)
            = replicate (length (checkMissingKeys S T)) 0"
    by (rule map_const_replicate) (simp add: issue_type_checkMissingKeys pass_rank_def)
  have b: "map (\<lambda>i. pass_rank (issue_type i)) (checkExtraKeys S T)
            = replicate (length (checkExtraKeys S T)) 1"
    by (rule map_const_replicate) (simp add: issue_type_checkExtraKeys pass_rank_def)
  have c: "map (\<lambda>i. pass_rank (issue_type i)) (checkDuplicates T)
            = replicate (length (checkDuplicates T)) 2"
    by (rule map_const_replicate) (simp add: issue_type_checkDuplicates pass_rank_def)
  have d: "map (\<lambda>i. pass_rank (issue_type i)) (checkPlaceholders S T)
            = replicate (length (checkPlaceholders S T)) 3"
    by (rule map_const_replicate) (simp add: issue_type_checkPlaceholders pass_rank_def)
  have e: "map (\<lambda>i. pass_rank (issue_type i)) (checkICUMessages pI sf S T)
            = replicate (length (checkICUMessages pI sf S T)) 4"
    by (rule map_const_replicate) (simp add: issue_type_checkICUMessages pass_rank_def)
  have f: "map (\<lambda>i. pass_rank (issue_type i)) (checkFormatting T)
            = replicate (length (checkFormatting T)) 5"
    by (rule map_const_replicate) (simp add: issue_type_checkFormatting pass_rank_def)
  show ?thesis
    unfolding validateTarget_def map_append a b c d e f
    by (auto simp: sorted_append)
qed

lemma set_map_put: "set (map_put k v m) \<subseteq> insert (k, v) (set m)"
  by (induction m) (auto split: if_splits)

lemma validate_reports:
  assumes "(l, r) \<in> set (validate pI sf S Ts)"
  shows "\<exists>t \<in> set Ts. l = file_locale t \<and> report_issues r = validateTarget pI sf S t"
proof -
  have gen: "\<And>acc. (l, r) \<in> set (foldl (\<lambda>reports targetFile.
              (let is = validateTarget pI sf S targetFile
               in map_put (file_locale targetFile)
                    \<lparr>report_locale = file_locale targetFile,
                     report_format = format targetFile,
                     report_issues = is, stats = calculateStats S is\<rparr>
                    reports)) acc Ts)
      \<Longrightarrow> (l, r) \<in> set acc
          \<or> (\<exists>t \<in> set Ts. l = file_locale t \<and> report_issues r = validateTarget pI sf S t)"
  proof (induction Ts)
    case Nil
    then show ?case by simp
  next
    case (Cons t Ts)
    from Cons.prems Cons.IH [of "map_put (file_locale t)
                    \<lparr>report_locale = file_locale t, report_format = format t,
                     report_issues = validateTarget pI sf S t,
                     stats = calculateStats S (validateTarget pI sf S t)\<rparr> acc"]
    have "(l, r) \<in> set (map_put (file_locale t)
                    \<lparr>report_locale = file_locale t, report_format = format t,
                     report_issues = validateTarget pI sf S t,
                     stats = calculateStats S (validateTarget pI sf S t)\<rparr> acc)
          \<or> (\<exists>t \<in> set Ts. l = file_locale t \<and> report_issues r = validateTarget pI sf S t)"
      by (simp add: Let_def)
    then show ?case
    proof
      assume "(l, r) \<in> set (map_put (file_locale t)
                    \<lparr>report_locale = file_locale t, report_format = format t,
                     report_issues = validateTarget pI sf S t,
                     stats = calculateStats S (validateTarget pI sf S t)\<rparr> acc)"
      with set_map_put have "(l, r) = (file_locale t,
                    \<lparr>report_locale = file_locale t, report_format = format t,
                     report_issues = validateTarget pI sf S t,
                     stats = calculateStats S (validateTarget pI sf S t)\<rparr>) \<or> (l, r) \<in> set acc"
        by fastforce
      then show ?thesis by auto
    next
      assume "\<exists>t \<in> set Ts. l = file_locale t \<and> report_issues r = validateTarget pI sf S t"
      then show ?thesis by auto
    qed
  qed
  from gen [of "[]"] assms show ?thesis by (simp add: validate_def)
qed

text \<open>
  Claim C9. Validation is a function of the source, the targets and the two libraries
  (the parser of structured messages and \<^verbatim>\<open>JSON.stringify\<close>, both functions of their
  argument): two runs on equal documents give equal reports, issue lists included. In the
  issue list of every report, and of every call of \<open>validateTarget\<close>, the issues are
  grouped in the order of the passes: missing, extra, duplicate, placeholder, structured
  message, formatting.
\<close>

theorem validate_deterministic_pass_order:
  "(S = S' \<and> Ts = Ts' \<longrightarrow> validate pI sf S Ts = validate pI sf S' Ts')
   \<and> (\<forall>(l, r) \<in> set (validate pI sf S Ts).
        sorted (map (\<lambda>i. pass_rank (issue_type i)) (report_issues r)))
   \<and> sorted (map (\<lambda>i. pass_rank (issue_type i)) (validateTarget pI sf S T))"
proof -
  have 1: "S = S' \<and> Ts = Ts' \<longrightarrow> validate pI sf S Ts = validate pI sf S' Ts'" by simp
  have 2: "\<forall>(l, r) \<in> set (validate pI sf S Ts).
        sorted (map (\<lambda>i. pass_rank (issue_type i)) (report_issues r))"
  proof (intro ballI, clarify)
    fix l r assume "(l, r) \<in> set (validate pI sf S Ts)"
    from validate_reports [OF this] obtain t where "report_issues r = validateTarget pI sf S t"
      by blast
    then show "sorted (map (\<lambda>i. pass_rank (issue_type i)) (report_issues r))"
      by (simp add: pass_order_validateTarget)
  qed
  from 1 2 pass_order_validateTarget [of pI sf S T] show ?thesis by blast
qed


theorem validate_deterministic_pass_order_witness:
  "plain_file ''en'' [(''a'', ''OK'')] = plain_file ''en'' [(''a'', ''OK'')]
   \<and> validate (\<lambda>v. Inl []) (\<lambda>j. []) (plain_file ''en'' [(''a'', ''OK'')])
        [plain_file ''es'' [(''a'', ''  OK  ''), (''b'', ''  OK  '')]] \<noteq> []
   \<and> sorted (map (\<lambda>i. pass_rank (issue_type i))
        (report_issues (snd (hd (validate (\<lambda>v. Inl []) (\<lambda>j. [])
           (plain_file ''en'' [(''a'', ''OK'')])
           [plain_file ''es'' [(''a'', ''  OK  ''), (''b'', ''  OK  '')]])))))"
proof -
  let ?V = "validate (\<lambda>v. Inl []) (\<lambda>j. []) (plain_file ''en'' [(''a'', ''OK'')])
        [plain_file ''es'' [(''a'', ''  OK  ''), (''b'', ''  OK  '')]]"
  have ne: "?V \<noteq> []" by (simp add: validate_def Let_def)
  then have "(fst (hd ?V), snd (hd ?V)) \<in> set ?V" by simp
  with validate_deterministic_pass_order
         [of "plain_file ''en'' [(''a'', ''OK'')]" "plain_file ''en'' [(''a'', ''OK'')]"
             "[plain_file ''es'' [(''a'', ''  OK  ''), (''b'', ''  OK  '')]]"
             "[plain_file ''es'' [(''a'', ''  OK  ''), (''b'', ''  OK  '')]]"
             "\<lambda>v. Inl []" "\<lambda>j. []"]
  have "sorted (map (\<lambda>i. pass_rank (issue_type i)) (report_issues (snd (hd ?V))))"
    by blast
  with ne show ?thesis by simp
qed

subsection \<open>Application of a fix\<close>

lemma map_of_update_other:
  "k' \<noteq> k \<Longrightarrow>
   map_of (map (\<lambda>(k', v'). if k' = k then (k', v) else (k', v')) obj) k' = map_of obj k'"
  by (induction obj) (auto simp: case_prod_unfold)

lemma map_of_update_same:
  "k \<in> fst ` set obj \<Longrightarrow>
   map_of (map (\<lambda>(k', v'). if k' = k then (k', v) else (k', v')) obj) k = Some v"
  by (induction obj) (auto simp: case_prod_unfold)

lemma obj_keys_update_in_place:
  "map fst (map (\<lambda>(k', v'). if k' = k then (k', v) else (k', v')) obj) = map fst obj"
  by (induction obj) (auto simp: case_prod_unfold)

lemma obj_set_existing:
  assumes a: "obj_get obj k = Some e"
  shows "obj_keys (obj_set k v obj) = obj_keys obj
     \<and> obj_get (obj_set k v obj) k = Some v
     \<and> (\<forall>k'. k' \<noteq> k \<longrightarrow> obj_get (obj_set k v obj) k' = obj_get obj k')"
proof -
  from a have "(k, e) \<in> set obj" by (simp add: obj_get_def map_of_SomeD)
  then have mem: "k \<in> fst ` set obj" by force
  then have has: "obj_has obj k" by (simp add: obj_has_def obj_keys_def)
  from has have eq: "obj_set k v obj = map (\<lambda>(k', v'). if k' = k then (k', v) else (k', v')) obj"
    by (simp add: obj_set_def)
  show ?thesis
    unfolding eq obj_get_def obj_keys_def
    using map_of_update_same [OF mem, of v] map_of_update_other [of _ k v obj]
          obj_keys_update_in_place [of k v obj]
    by simp
qed

text \<open>
  Claim C10, as amended. For a fix of type \<open>FixPlaceholder\<close>, \<open>FixFormatting\<close> or \<open>FixICU\<close>:
  when the fix carries no \<open>newValue\<close>, or its \<open>newValue\<close> is the empty string, or the
  document has no entry under the key of the fix, \<open>applyFix\<close> returns the document as it
  is (no entry is created). Otherwise it replaces the value of that entry by \<open>newValue\<close>:
  the keys and their order, every other entry, the raw data and every other field of the
  document stay as they are.
\<close>

theorem applyFix_value_fix:
  assumes ft: "fix_type fix \<in> {FixPlaceholder, FixFormatting, FixICU}"
  shows "(newValue fix = None \<or> newValue fix = Some [] \<or> obj_get (entries T) (fix_key fix) = None
            \<longrightarrow> applyFix S fix T = Inr T)
    \<and> (\<forall>nv e. newValue fix = Some nv \<and> nv \<noteq> [] \<and> obj_get (entries T) (fix_key fix) = Some e
          \<longrightarrow> (\<exists>T'. applyFix S fix T = Inr T'
                 \<and> T' = T\<lparr>entries := entries T'\<rparr>
                 \<and> raw T' = raw T
                 \<and> obj_keys (entries T') = obj_keys (entries T)
                 \<and> obj_get (entries T') (fix_key fix) = Some (e\<lparr>val := nv\<rparr>)
                 \<and> (\<forall>k. k \<noteq> fix_key fix
                       \<longrightarrow> obj_get (entries T') k = obj_get (entries T) k)))"
proof -
  have unfold: "applyFix S fix T =
          (case obj_get (entries T) (fix_key fix) of
             None \<Rightarrow> Inr T
           | Some e \<Rightarrow>
               if truthy_str (newValue fix)
               then Inr (T\<lparr>entries := obj_set (fix_key fix) (e\<lparr>val := the (newValue fix)\<rparr>)
                                        (entries T)\<rparr>)
               else Inr T)"
    using ft by (auto simp: applyFix_def)
  have 1: "newValue fix = None \<or> newValue fix = Some [] \<or> obj_get (entries T) (fix_key fix) = None
            \<longrightarrow> applyFix S fix T = Inr T"
    unfolding unfold by (auto simp: truthy_str_def split: option.splits)
  have 2: "\<forall>nv e. newValue fix = Some nv \<and> nv \<noteq> [] \<and> obj_get (entries T) (fix_key fix) = Some e
          \<longrightarrow> (\<exists>T'. applyFix S fix T = Inr T'
                 \<and> T' = T\<lparr>entries := entries T'\<rparr>
                 \<and> raw T' = raw T
                 \<and> obj_keys (entries T') = obj_keys (entries T)
                 \<and> obj_get (entries T') (fix_key fix) = Some (e\<lparr>val := nv\<rparr>)
                 \<and> (\<forall>k. k \<noteq> fix_key fix
                       \<longrightarrow> obj_get (entries T') k = obj_get (entries T) k))"
  proof (intro allI impI)
    fix nv e
    assume h: "newValue fix = Some nv \<and> nv \<noteq> [] \<and> obj_get (entries T) (fix_key fix) = Some e"
    let ?T' = "T\<lparr>entries := obj_set (fix_key fix) (e\<lparr>val := nv\<rparr>) (entries T)\<rparr>"
    from h have a: "applyFix S fix T = Inr ?T'"
      unfolding unfold by (simp add: truthy_str_def)
    from h obj_set_existing [of "entries T" "fix_key fix" e "e\<lparr>val := nv\<rparr>"]
    have b: "obj_keys (entries ?T') = obj_keys (entries T)
           \<and> obj_get (entries ?T') (fix_key fix) = Some (e\<lparr>val := nv\<rparr>)
           \<and> (\<forall>k. k \<noteq> fix_key fix \<longrightarrow> obj_get (entries ?T') k = obj_get (entries T) k)"
      by simp
    have c: "?T' = T\<lparr>entries := entries ?T'\<rparr> \<and> raw ?T' = raw T" by simp
    from a b c show "\<exists>T'. applyFix S fix T = Inr T'
                 \<and> T' = T\<lparr>entries := entries T'\<rparr>
                 \<and> raw T' = raw T
                 \<and> obj_keys (entries T') = obj_keys (entries T)
                 \<and> obj_get (entries T') (fix_key fix) = Some (e\<lparr>val := nv\<rparr>)
                 \<and> (\<forall>k. k \<noteq> fix_key fix
                       \<longrightarrow> obj_get (entries T') k = obj_get (entries T) k)"
      by blast
  qed
  from 1 2 show ?thesis by blast
qed

text \<open>
  Claim C10 as stated fails on a fix that carries the empty string: the guard
  \<^verbatim>\<open>fix.newValue && ...\<close> takes it for absent. The validator's formatting issue for the
  value of two spaces suggests the empty string; its fix carries \<open>Some []\<close>, the entry
  exists, and the document comes back unchanged, the value still two spaces.
\<close>

theorem applyFix_empty_newValue_counterexample:
  "newValue (generateFormattingFix (hd (checkFormatting (plain_file ''es'' [(''a'', ''  '')]))))
     = Some []
   \<and> fix_type (generateFormattingFix (hd (checkFormatting (plain_file ''es'' [(''a'', ''  '')]))))
     = FixFormatting
   \<and> obj_get (entries (plain_file ''es'' [(''a'', ''  '')]))
       (fix_key (generateFormattingFix (hd (checkFormatting (plain_file ''es'' [(''a'', ''  '')])))))
     = Some (snd (plain_entry ''a'' ''  ''))
   \<and> applyFix (plain_file ''en'' [(''a'', ''x'')])
       (generateFormattingFix (hd (checkFormatting (plain_file ''es'' [(''a'', ''  '')]))))
       (plain_file ''es'' [(''a'', ''  '')])
     = Inr (plain_file ''es'' [(''a'', ''  '')])"
  by code_simp

theorem applyFix_value_fix_witness:
  "fix_type (generateFormattingFix (hd (checkFormatting (plain_file ''es'' [(''a'', '' OK '')]))))
     \<in> {FixPlaceholder, FixFormatting, FixICU}
   \<and> map_option val (obj_get (entries (projr (applyFix (plain_file ''en'' [(''a'', ''OK'')])
       (generateFormattingFix (hd (checkFormatting (plain_file ''es'' [(''a'', '' OK '')]))))
       (plain_file ''es'' [(''a'', '' OK '')])))) ''a'') = Some ''OK''"
proof -
  let ?f = "generateFormattingFix (hd (checkFormatting (plain_file ''es'' [(''a'', '' OK '')])))"
  have ft: "fix_type ?f \<in> {FixPlaceholder, FixFormatting, FixICU}"
    by (simp add: generateFormattingFix_def)
  have nv: "newValue ?f = Some ''OK''" by code_simp
  have k: "fix_key ?f = ''a''" by code_simp
  have g: "obj_get (entries (plain_file ''es'' [(''a'', '' OK '')])) ''a''
             = Some (snd (plain_entry ''a'' '' OK ''))"
    by code_simp
  from applyFix_value_fix [OF ft, of "plain_file ''es'' [(''a'', '' OK '')]"
          "plain_file ''en'' [(''a'', ''OK'')]"] nv k g
  have "\<exists>T'. applyFix (plain_file ''en'' [(''a'', ''OK'')]) ?f
                 (plain_file ''es'' [(''a'', '' OK '')]) = Inr T'
         \<and> obj_get (entries T') ''a'' = Some ((snd (plain_entry ''a'' '' OK ''))\<lparr>val := ''OK''\<rparr>)"
    by auto
  then have "map_option val (obj_get (entries (projr (applyFix (plain_file ''en'' [(''a'', ''OK'')]) ?f
       (plain_file ''es'' [(''a'', '' OK '')])))) ''a'') = Some ''OK''"
    by auto
  with ft show ?thesis by blast
qed

subsection \<open>The placeholder fix\<close>

text \<open>
  Claim C5. The fix of a placeholder mismatch is to rename the placeholder at each index
  of the target to the name at that index of the source. For the source \<^verbatim>\<open>{a} {c}\<close> and
  the target \<^verbatim>\<open>{b} {a}\<close> that is \<^verbatim>\<open>{a} {c}\<close>. The fixer collects the pairs
  \<open>b \<mapsto> a\<close> and \<open>a \<mapsto> c\<close> by index, and then replaces every occurrence of each old name
  in turn: the \<open>a\<close> written by the first replacement is renamed by the second, and the
  fixed value is \<^verbatim>\<open>{c} {c}\<close>.
\<close>

theorem placeholder_fix_chained_rename:
  "map_sum id (\<lambda>(f, fixes). (map (\<lambda>(k, e). (k, val e)) (entries f), map newValue fixes))
     (autoFix \<lparr>doAutoFix = True, preferOrder = None\<rparr>
        (plain_file ''en'' [(''m'', ''{a} {c}'')]) (plain_file ''es'' [(''m'', ''{b} {a}'')])
        (validateTarget (\<lambda>v. Inl []) (\<lambda>j. [])
           (plain_file ''en'' [(''m'', ''{a} {c}'')]) (plain_file ''es'' [(''m'', ''{b} {a}'')])))
   = Inr ([(''m'', ''{c} {c}'')], [Some ''{c} {c}''])"
  by code_simp

text \<open>Scenario C of the specification, where the two names differ at one index only.\<close>

lemma scenario_C:
  "map_sum id (\<lambda>(f, fixes). (map (\<lambda>(k, e). (k, val e)) (entries f), map newValue fixes))
     (autoFix \<lparr>doAutoFix = True, preferOrder = None\<rparr>
        (plain_file ''en'' [(''msg'', ''Hi {user}'')]) (plain_file ''es'' [(''msg'', ''Hola {usuario}'')])
        (validateTarget (\<lambda>v. Inl []) (\<lambda>j. [])
           (plain_file ''en'' [(''msg'', ''Hi {user}'')])
           (plain_file ''es'' [(''msg'', ''Hola {usuario}'')])))
   = Inr ([(''msg'', ''Hola {user}'')], [Some ''Hola {user}''])"
  by code_simp

subsection \<open>The keys of a document under the fixes\<close>

















subsection \<open>A second round of fixes\<close>


lemma obj_keys_Nil: "obj_keys [] = []"
  by (simp add: obj_keys_def)














subsection \<open>Patches\<close>

lemma patchLoop_filter:
  "patchLoop sf ctp originals ms acc
     = acc @ map (\<lambda>(l, m). generatePatch sf ctp (the (map_of originals l)) m)
               (filter (\<lambda>(l, m). case map_of originals l of
                                    None \<Rightarrow> False
                                  | Some orig \<Rightarrow> serializeARB sf orig \<noteq> serializeARB sf m) ms)"
proof (induction ms arbitrary: acc)
  case Nil
  show ?case by simp
next
  case (Cons lm ms)
  obtain l m where lm: "lm = (l, m)" by (cases lm)
  show ?case
    unfolding lm
    by (cases "map_of originals l") (simp_all add: Cons.IH hasChanges_def)
qed

text \<open>
  Claim C8. For two maps from locale to document (the keys of a \<^verbatim>\<open>Map\<close> are distinct),
  \<open>generatePatches\<close> returns the patches of the locales that are present in both maps and
  whose canonical serialisations differ, one patch for each such locale, in the order of
  the map of modified documents. A locale that the map of originals lacks, or whose two
  serialisations are equal, has no patch.
\<close>

theorem generatePatches_one_per_changed_locale:
  assumes d: "distinct (map fst modifieds)"
  shows "generatePatches sf ctp originals modifieds
           = map (\<lambda>(l, m). generatePatch sf ctp (the (map_of originals l)) m)
               (filter (\<lambda>(l, m). case map_of originals l of
                                    None \<Rightarrow> False
                                  | Some orig \<Rightarrow> serializeARB sf orig \<noteq> serializeARB sf m)
                  modifieds)
    \<and> distinct (map fst
          (filter (\<lambda>(l, m). case map_of originals l of
                               None \<Rightarrow> False
                             | Some orig \<Rightarrow> serializeARB sf orig \<noteq> serializeARB sf m)
             modifieds))
    \<and> set (map fst
          (filter (\<lambda>(l, m). case map_of originals l of
                               None \<Rightarrow> False
                             | Some orig \<Rightarrow> serializeARB sf orig \<noteq> serializeARB sf m)
             modifieds))
        = {l. \<exists>orig m. map_of originals l = Some orig \<and> map_of modifieds l = Some m
                       \<and> serializeARB sf orig \<noteq> serializeARB sf m}"
proof -
  let ?P = "\<lambda>(l, m). case map_of originals l of
                        None \<Rightarrow> False
                      | Some orig \<Rightarrow> serializeARB sf orig \<noteq> serializeARB sf m"
  have 1: "generatePatches sf ctp originals modifieds
           = map (\<lambda>(l, m). generatePatch sf ctp (the (map_of originals l)) m) (filter ?P modifieds)"
    by (simp add: generatePatches_def patchLoop_filter)
  have 2: "distinct (map fst (filter ?P modifieds))"
    using d by (rule distinct_map_filter)
  have 3: "set (map fst (filter ?P modifieds))
        = {l. \<exists>orig m. map_of originals l = Some orig \<and> map_of modifieds l = Some m
                       \<and> serializeARB sf orig \<noteq> serializeARB sf m}"
  proof (intro set_eqI iffI)
    fix l assume "l \<in> set (map fst (filter ?P modifieds))"
    then obtain m where mem: "(l, m) \<in> set modifieds" and p: "?P (l, m)" by auto
    from d mem have "map_of modifieds l = Some m" by simp
    with p show "l \<in> {l. \<exists>orig m. map_of originals l = Some orig \<and> map_of modifieds l = Some m
                       \<and> serializeARB sf orig \<noteq> serializeARB sf m}"
      by (cases "map_of originals l") auto
  next
    fix l assume "l \<in> {l. \<exists>orig m. map_of originals l = Some orig \<and> map_of modifieds l = Some m
                       \<and> serializeARB sf orig \<noteq> serializeARB sf m}"
    then obtain orig m where o: "map_of originals l = Some orig"
      and m: "map_of modifieds l = Some m"
      and ne: "serializeARB sf orig \<noteq> serializeARB sf m" by blast
    from m have "(l, m) \<in> set modifieds" by (rule map_of_SomeD)
    moreover from o ne have "?P (l, m)" by simp
    ultimately have "(l, m) \<in> set (filter ?P modifieds)" by simp
    then show "l \<in> set (map fst (filter ?P modifieds))" by force
  qed
  from 1 2 3 show ?thesis by blast
qed

theorem generatePatches_one_per_changed_locale_witness:
  "distinct (map fst [(''es'', plain_file ''es'' [(''a'', ''hola'')]),
                      (''fr'', plain_file ''fr'' [(''a'', ''salut'')]),
                      (''de'', plain_file ''de'' [(''a'', ''hallo'')])])
   \<and> map patch_path
        (generatePatches compact_json two_contents
           [(''es'', plain_file ''es'' [(''a'', ''ola'')]),
            (''fr'', plain_file ''fr'' [(''a'', ''salut'')])]
           [(''es'', plain_file ''es'' [(''a'', ''hola'')]),
            (''fr'', plain_file ''fr'' [(''a'', ''salut'')]),
            (''de'', plain_file ''de'' [(''a'', ''hallo'')])])
       = [''es.json'']"
proof -
  let ?os = "[(''es'', plain_file ''es'' [(''a'', ''ola'')]),
              (''fr'', plain_file ''fr'' [(''a'', ''salut'')])]"
  let ?ms = "[(''es'', plain_file ''es'' [(''a'', ''hola'')]),
              (''fr'', plain_file ''fr'' [(''a'', ''salut'')]),
              (''de'', plain_file ''de'' [(''a'', ''hallo'')])]"
  have d: "distinct (map fst ?ms)" by simp
  have e: "map patch_path
             (map (\<lambda>(l, m). generatePatch compact_json two_contents (the (map_of ?os l)) m)
                (filter (\<lambda>(l, m). case map_of ?os l of
                                     None \<Rightarrow> False
                                   | Some orig \<Rightarrow> serializeARB compact_json orig
                                                  \<noteq> serializeARB compact_json m) ?ms))
           = [''es.json'']"
    by code_simp
  from generatePatches_one_per_changed_locale [OF d, of compact_json two_contents ?os]
  have "generatePatches compact_json two_contents ?os ?ms
          = map (\<lambda>(l, m). generatePatch compact_json two_contents (the (map_of ?os l)) m)
                (filter (\<lambda>(l, m). case map_of ?os l of
                                     None \<Rightarrow> False
                                   | Some orig \<Rightarrow> serializeARB compact_json orig
                                                  \<noteq> serializeARB compact_json m) ?ms)"
    by blast
  with e have "map patch_path (generatePatches compact_json two_contents ?os ?ms) = [''es.json'']"
    by simp
  with d show ?thesis by blast
qed

subsection \<open>Parsing and writing a key/value document\<close>




















subsection \<open>The store\<close>

lemma get_obj_put_obj:
  "get_obj (put_obj a ob st) b = (if b = a \<and> a < length st then Some ob else get_obj st b)"
  by (auto simp: get_obj_def put_obj_def)

lemma length_put_obj: "length (put_obj a ob st) = length st"
  by (simp add: put_obj_def)

lemma take_put_obj: "n \<le> a \<Longrightarrow> take n (put_obj a ob st) = take n st"
  by (simp add: put_obj_def)

lemma new_obj_addr: "new_obj ob st = (a, st1) \<Longrightarrow> a = length st \<and> st1 = st @ [ob]"
  by (auto simp: new_obj_def)

lemma get_obj_append:
  "get_obj (st @ [ob]) b = (if b = length st then Some ob else get_obj st b)"
  by (auto simp: get_obj_def nth_append)

lemma owned_iff:
  "owned n st fa \<longleftrightarrow>
     (\<exists>loc p fmt er rr lm refs r.
        get_obj st fa = Some (FileObj loc p fmt er rr lm)
        \<and> get_obj st er = Some (EntriesObj refs)
        \<and> get_obj st rr = Some (RawObj r)
        \<and> n \<le> fa \<and> n \<le> er \<and> n \<le> rr
        \<and> (\<forall>(k, a) \<in> set refs. n \<le> a \<and> (\<exists>e. get_obj st a = Some (EntryObj e)))
        \<and> distinct (map fst refs) \<and> distinct (map snd refs))"
proof -
  have e: "is_entry st a \<longleftrightarrow> (\<exists>e. get_obj st a = Some (EntryObj e))" for a
    by (simp add: is_entry_def split: option.splits obj.splits)
  show ?thesis
  proof (cases "get_obj st fa")
    case None
    then show ?thesis by (simp add: owned_def)
  next
    case (Some ob)
    show ?thesis
    proof (cases ob)
      case (FileObj loc p fmt er rr lm)
      show ?thesis
      proof (cases "get_obj st er")
        case None
        with Some FileObj show ?thesis by (simp add: owned_def)
      next
        case se: (Some eo)
        show ?thesis
        proof (cases eo)
          case (EntriesObj refs)
          show ?thesis
          proof (cases "get_obj st rr")
            case None
            with Some FileObj se EntriesObj show ?thesis by (simp add: owned_def)
          next
            case sr: (Some ro)
            show ?thesis
            proof (cases ro)
              case (RawObj r)
              with Some FileObj se EntriesObj sr show ?thesis
                by (simp add: owned_def list_all_iff e case_prod_unfold)
            qed (use Some FileObj se EntriesObj sr in \<open>simp_all add: owned_def\<close>)
          qed
        qed (use Some FileObj se in \<open>simp_all add: owned_def\<close>)
      qed
    qed (use Some in \<open>simp_all add: owned_def\<close>)
  qed
qed

subsection \<open>Objects under a map of their values\<close>

lemma obj_keys_map_vals: "obj_keys (map_vals g obj) = obj_keys obj"
  by (simp add: map_vals_def obj_keys_def case_prod_unfold comp_def)

lemma obj_has_map_vals: "obj_has (map_vals g obj) k = obj_has obj k"
  by (simp add: obj_has_def obj_keys_map_vals)

lemma obj_get_map_vals: "obj_get (map_vals g obj) k = map_option g (obj_get obj k)"
  by (induction obj) (auto simp: map_vals_def obj_get_def)

lemma map_vals_obj_insert:
  "map_vals g (obj_insert k v obj) = obj_insert k (g v) (map_vals g obj)"
  by (induction k v obj rule: obj_insert.induct) (simp_all add: map_vals_def)

lemma map_vals_obj_set: "map_vals g (obj_set k v obj) = obj_set k (g v) (map_vals g obj)"
proof (cases "obj_has obj k")
  case True
  then show ?thesis
    by (simp add: obj_set_def obj_has_map_vals) (simp add: map_vals_def case_prod_unfold)
next
  case False
  then show ?thesis
    by (simp add: obj_set_def obj_has_map_vals map_vals_obj_insert)
qed

lemma map_vals_obj_delete: "map_vals g (obj_delete k obj) = obj_delete k (map_vals g obj)"
  by (induction obj) (auto simp: map_vals_def obj_delete_def)

lemma map_vals_copy_keys:
  "map_vals g (copy_keys obj acc ks) = copy_keys (map_vals g obj) (map_vals g acc) ks"
  unfolding copy_keys_def
proof (induction ks arbitrary: acc)
  case Nil
  show ?case by simp
next
  case (Cons k ks)
  show ?case
    by (cases "obj_get obj k") (simp_all add: Cons.IH obj_get_map_vals map_vals_obj_set)
qed

lemma map_vals_Nil: "map_vals g [] = []"
  by (simp add: map_vals_def)

lemma map_vals_mirror_order:
  "map_vals g (mirror_order sks obj) = mirror_order sks (map_vals g obj)"
  by (simp add: mirror_order_def Let_def map_vals_copy_keys map_vals_Nil obj_keys_map_vals)

lemma map_vals_alphabetical_order:
  "map_vals g (alphabetical_order obj) = alphabetical_order (map_vals g obj)"
  by (simp add: alphabetical_order_def map_vals_copy_keys map_vals_Nil obj_keys_map_vals)

lemma map_vals_cong:
  "(\<And>k v. (k, v) \<in> set obj \<Longrightarrow> g v = g' v) \<Longrightarrow> map_vals g obj = map_vals g' obj"
  by (auto simp: map_vals_def)

lemma load_entries_map_vals:
  "list_all (\<lambda>(k, a). is_entry st a) refs \<Longrightarrow>
   load_entries st refs = Some (map_vals (the_entry st) refs)"
proof (induction refs)
  case Nil
  show ?case by (simp add: map_vals_def)
next
  case (Cons ka refs)
  obtain k a where ka: "ka = (k, a)" by (cases ka)
  from Cons.prems ka have ia: "is_entry st a" and rest: "list_all (\<lambda>(k, a). is_entry st a) refs"
    by simp_all
  from ia obtain e where e: "get_obj st a = Some (EntryObj e)"
    by (auto simp: is_entry_def split: option.splits obj.splits)
  from Cons.IH [OF rest] e show ?case
    unfolding ka by (simp add: map_vals_def the_entry_def)
qed

lemma set_obj_insert: "set (obj_insert k v obj) = insert (k, v) (set obj)"
  by (induction k v obj rule: obj_insert.induct) auto

lemma set_obj_set: "set (obj_set k v obj) \<subseteq> insert (k, v) (set obj)"
  by (auto simp: obj_set_def set_obj_insert split: if_splits)

lemma set_obj_delete: "set (obj_delete k obj) \<subseteq> set obj"
  by (auto simp: obj_delete_def)

lemma distinct_keys_obj_insert:
  "distinct (obj_keys obj) \<Longrightarrow> k \<notin> set (obj_keys obj) \<Longrightarrow> distinct (obj_keys (obj_insert k v obj))"
  by (induction k v obj rule: obj_insert.induct)
     (auto simp: obj_keys_def set_obj_insert image_iff)

lemma distinct_keys_obj_set:
  "distinct (obj_keys obj) \<Longrightarrow> distinct (obj_keys (obj_set k v obj))"
proof (cases "obj_has obj k")
  case True
  assume d: "distinct (obj_keys obj)"
  from True have eq: "obj_set k v obj = map (\<lambda>(k', v'). if k' = k then (k', v) else (k', v')) obj"
    by (simp add: obj_set_def)
  have "obj_keys (obj_set k v obj) = obj_keys obj"
    unfolding eq obj_keys_def by (rule obj_keys_update_in_place)
  with d show ?thesis by simp
next
  case False
  assume "distinct (obj_keys obj)"
  with False show ?thesis
    by (simp add: obj_set_def obj_has_def distinct_keys_obj_insert)
qed

lemma distinct_keys_obj_delete:
  "distinct (obj_keys obj) \<Longrightarrow> distinct (obj_keys (obj_delete k obj))"
  by (simp add: obj_keys_def obj_delete_def distinct_map_filter)

lemma distinct_vals_sub:
  assumes "distinct (map fst xs)" and "set xs \<subseteq> A" and "inj_on snd A"
  shows "distinct (map snd xs)"
proof -
  from assms(1) have "distinct xs" by (simp add: distinct_map)
  moreover from assms(2,3) have "inj_on snd (set xs)" by (rule inj_on_subset [rotated])
  ultimately show ?thesis by (simp add: distinct_map)
qed

lemma inj_on_snd_obj: "distinct (map snd obj) \<Longrightarrow> inj_on snd (set obj)"
  by (simp add: distinct_map)

lemma set_copy_keys: "set (copy_keys obj acc ks) \<subseteq> set acc \<union> set obj"
  unfolding copy_keys_def
proof (induction ks arbitrary: acc)
  case Nil
  show ?case by simp
next
  case (Cons k ks)
  show ?case
  proof (cases "obj_get obj k")
    case None
    with Cons.IH [of acc] show ?thesis by simp
  next
    case (Some e)
    then have "(k, e) \<in> set obj" by (simp add: obj_get_def map_of_SomeD)
    with Some Cons.IH [of "obj_set k e acc"] set_obj_set [of k e acc] show ?thesis by auto
  qed
qed

lemma distinct_keys_copy_keys:
  "distinct (obj_keys acc) \<Longrightarrow> distinct (obj_keys (copy_keys obj acc ks))"
  unfolding copy_keys_def
proof (induction ks arbitrary: acc)
  case Nil
  then show ?case by simp
next
  case (Cons k ks)
  then show ?case
    by (cases "obj_get obj k") (simp_all add: distinct_keys_obj_set)
qed

lemma set_mirror_order: "set (mirror_order sks obj) \<subseteq> set obj"
  using set_copy_keys [of obj "copy_keys obj [] sks"] set_copy_keys [of obj "[]" sks]
  by (auto simp: mirror_order_def Let_def)

lemma set_alphabetical_order: "set (alphabetical_order obj) \<subseteq> set obj"
  using set_copy_keys [of obj "[]"] by (auto simp: alphabetical_order_def)

lemma distinct_keys_mirror_order: "distinct (obj_keys (mirror_order sks obj))"
  by (simp add: mirror_order_def Let_def distinct_keys_copy_keys obj_keys_Nil)

lemma distinct_keys_alphabetical_order: "distinct (obj_keys (alphabetical_order obj))"
  by (simp add: alphabetical_order_def distinct_keys_copy_keys obj_keys_Nil)

lemma map_vals_update_at:
  assumes dk: "distinct (map fst refs)" and dv: "distinct (map snd refs)"
    and g: "obj_get refs k = Some a"
  shows "map_vals (\<lambda>b. if b = a then e' else h b) refs = obj_set k e' (map_vals h refs)"
proof -
  from g have mem: "(k, a) \<in> set refs" by (simp add: obj_get_def map_of_SomeD)
  then have "k \<in> fst ` set refs" by force
  then have "obj_has refs k" by (simp add: obj_has_def obj_keys_def)
  then have has: "obj_has (map_vals h refs) k" by (simp only: obj_has_map_vals)
  have pt: "(b = a) = (k' = k)" if "(k', b) \<in> set refs" for k' b
  proof
    assume "b = a"
    with that mem dv show "k' = k"
      by (metis distinct_map inj_on_def snd_conv prod.inject fst_conv)
  next
    assume "k' = k"
    with that mem dk show "b = a"
      by (metis distinct_map inj_on_def fst_conv prod.inject snd_conv)
  qed
  show ?thesis
    unfolding obj_set_def using has
    by (auto simp: map_vals_def pt)
qed

lemma is_entry_iff: "is_entry st a \<longleftrightarrow> (\<exists>e. get_obj st a = Some (EntryObj e))"
  by (simp add: is_entry_def split: option.splits obj.splits)

lemma denotes_iff:
  "denotes n st fa F \<longleftrightarrow>
     (\<exists>loc p fmt er rr lm refs r.
        get_obj st fa = Some (FileObj loc p fmt er rr lm)
        \<and> get_obj st er = Some (EntriesObj refs)
        \<and> get_obj st rr = Some (RawObj r)
        \<and> n \<le> fa \<and> n \<le> er \<and> n \<le> rr
        \<and> (\<forall>(k, a) \<in> set refs. n \<le> a \<and> (\<exists>e. get_obj st a = Some (EntryObj e)))
        \<and> distinct (map fst refs) \<and> distinct (map snd refs)
        \<and> F = \<lparr>file_locale = loc, path = p, format = fmt,
                 entries = map_vals (the_entry st) refs, raw = r, lastModified = lm\<rparr>)"
proof
  assume "denotes n st fa F"
  then have o: "owned n st fa" and l: "load_file st fa = Some F" by (simp_all add: denotes_def)
  from o [unfolded owned_iff] obtain loc p fmt er rr lm refs r where
    c: "get_obj st fa = Some (FileObj loc p fmt er rr lm)"
       "get_obj st er = Some (EntriesObj refs)"
       "get_obj st rr = Some (RawObj r)"
       "n \<le> fa" "n \<le> er" "n \<le> rr"
       "\<forall>(k, a) \<in> set refs. n \<le> a \<and> (\<exists>e. get_obj st a = Some (EntryObj e))"
       "distinct (map fst refs)" "distinct (map snd refs)"
    by blast
  from c(7) have "list_all (\<lambda>(k, a). is_entry st a) refs"
    by (auto simp: list_all_iff is_entry_iff)
  then have "load_entries st refs = Some (map_vals (the_entry st) refs)"
    by (rule load_entries_map_vals)
  with l c(1,2,3) have "F = \<lparr>file_locale = loc, path = p, format = fmt,
                 entries = map_vals (the_entry st) refs, raw = r, lastModified = lm\<rparr>"
    by (simp add: load_file_def)
  with c show "\<exists>loc p fmt er rr lm refs r.
        get_obj st fa = Some (FileObj loc p fmt er rr lm)
        \<and> get_obj st er = Some (EntriesObj refs)
        \<and> get_obj st rr = Some (RawObj r)
        \<and> n \<le> fa \<and> n \<le> er \<and> n \<le> rr
        \<and> (\<forall>(k, a) \<in> set refs. n \<le> a \<and> (\<exists>e. get_obj st a = Some (EntryObj e)))
        \<and> distinct (map fst refs) \<and> distinct (map snd refs)
        \<and> F = \<lparr>file_locale = loc, path = p, format = fmt,
                 entries = map_vals (the_entry st) refs, raw = r, lastModified = lm\<rparr>"
    by blast
next
  assume "\<exists>loc p fmt er rr lm refs r.
        get_obj st fa = Some (FileObj loc p fmt er rr lm)
        \<and> get_obj st er = Some (EntriesObj refs)
        \<and> get_obj st rr = Some (RawObj r)
        \<and> n \<le> fa \<and> n \<le> er \<and> n \<le> rr
        \<and> (\<forall>(k, a) \<in> set refs. n \<le> a \<and> (\<exists>e. get_obj st a = Some (EntryObj e)))
        \<and> distinct (map fst refs) \<and> distinct (map snd refs)
        \<and> F = \<lparr>file_locale = loc, path = p, format = fmt,
                 entries = map_vals (the_entry st) refs, raw = r, lastModified = lm\<rparr>"
  then obtain loc p fmt er rr lm refs r where
    c: "get_obj st fa = Some (FileObj loc p fmt er rr lm)"
       "get_obj st er = Some (EntriesObj refs)"
       "get_obj st rr = Some (RawObj r)"
       "n \<le> fa" "n \<le> er" "n \<le> rr"
       "\<forall>(k, a) \<in> set refs. n \<le> a \<and> (\<exists>e. get_obj st a = Some (EntryObj e))"
       "distinct (map fst refs)" "distinct (map snd refs)"
    and F: "F = \<lparr>file_locale = loc, path = p, format = fmt,
                 entries = map_vals (the_entry st) refs, raw = r, lastModified = lm\<rparr>"
    by blast
  from c have o: "owned n st fa" unfolding owned_iff by blast
  from c(7) have "list_all (\<lambda>(k, a). is_entry st a) refs"
    by (auto simp: list_all_iff is_entry_iff)
  then have "load_entries st refs = Some (map_vals (the_entry st) refs)"
    by (rule load_entries_map_vals)
  with c(1,2,3) F have "load_file st fa = Some F" by (simp add: load_file_def)
  with o show "denotes n st fa F" by (simp add: denotes_def)
qed

lemma denotesI:
  assumes "get_obj st fa = Some (FileObj loc p fmt er rr lm)"
    and "get_obj st er = Some (EntriesObj refs)"
    and "get_obj st rr = Some (RawObj r)"
    and "n \<le> fa" and "n \<le> er" and "n \<le> rr"
    and "\<And>k a. (k, a) \<in> set refs \<Longrightarrow> n \<le> a \<and> (\<exists>e. get_obj st a = Some (EntryObj e))"
    and "distinct (map fst refs)" and "distinct (map snd refs)"
    and "F = \<lparr>file_locale = loc, path = p, format = fmt,
               entries = map_vals (the_entry st) refs, raw = r, lastModified = lm\<rparr>"
  shows "denotes n st fa F"
  unfolding denotes_iff using assms by blast

lemma denotesE:
  assumes "denotes n st fa F"
  obtains loc p fmt er rr lm refs r where
    "get_obj st fa = Some (FileObj loc p fmt er rr lm)"
    and "get_obj st er = Some (EntriesObj refs)"
    and "get_obj st rr = Some (RawObj r)"
    and "n \<le> fa" and "n \<le> er" and "n \<le> rr"
    and "\<And>k a. (k, a) \<in> set refs \<Longrightarrow> n \<le> a \<and> (\<exists>e. get_obj st a = Some (EntryObj e))"
    and "distinct (map fst refs)" and "distinct (map snd refs)"
    and "F = \<lparr>file_locale = loc, path = p, format = fmt,
               entries = map_vals (the_entry st) refs, raw = r, lastModified = lm\<rparr>"
proof -
  from assms [unfolded denotes_iff] obtain loc p fmt er rr lm refs r where
    c: "get_obj st fa = Some (FileObj loc p fmt er rr lm)"
       "get_obj st er = Some (EntriesObj refs)"
       "get_obj st rr = Some (RawObj r)"
       "n \<le> fa" "n \<le> er" "n \<le> rr"
       "\<forall>(k, a) \<in> set refs. n \<le> a \<and> (\<exists>e. get_obj st a = Some (EntryObj e))"
       "distinct (map fst refs)" "distinct (map snd refs)"
       "F = \<lparr>file_locale = loc, path = p, format = fmt,
               entries = map_vals (the_entry st) refs, raw = r, lastModified = lm\<rparr>"
    by blast
  from c(7) have m: "\<And>k a. (k, a) \<in> set refs \<Longrightarrow>
                     n \<le> a \<and> (\<exists>e. get_obj st a = Some (EntryObj e))" by auto
  show thesis by (rule that [OF c(1) c(2) c(3) c(4) c(5) c(6) m c(8) c(9) c(10)])
qed

lemma get_obj_Some_lt: "get_obj st a = Some ob \<Longrightarrow> a < length st"
  by (auto simp: get_obj_def split: if_splits)

lemma the_entry_eq: "get_obj st a = Some (EntryObj e) \<Longrightarrow> the_entry st a = e"
  by (simp add: the_entry_def)

lemma map_vals_the_entry_cong:
  assumes "\<And>k a. (k, a) \<in> set refs \<Longrightarrow> get_obj st' a = get_obj st a"
  shows "map_vals (the_entry st') refs = map_vals (the_entry st) refs"
  by (rule map_vals_cong) (simp add: the_entry_def assms)

lemma denotes_parts:
  assumes d: "denotes n st fa F"
    and f: "get_obj st fa = Some (FileObj loc p fmt er rr lm)"
    and e: "get_obj st er = Some (EntriesObj refs)"
  shows "\<exists>r. get_obj st rr = Some (RawObj r) \<and> n \<le> fa \<and> n \<le> er \<and> n \<le> rr
           \<and> (\<forall>k a. (k, a) \<in> set refs \<longrightarrow>
                  n \<le> a \<and> (\<exists>e. get_obj st a = Some (EntryObj e)))
           \<and> distinct (map fst refs) \<and> distinct (map snd refs)
           \<and> F = \<lparr>file_locale = loc, path = p, format = fmt,
                     entries = map_vals (the_entry st) refs, raw = r, lastModified = lm\<rparr>"
proof -
  from d [unfolded denotes_iff] obtain loc' p' fmt' er' rr' lm' refs' r where
    c: "get_obj st fa = Some (FileObj loc' p' fmt' er' rr' lm')"
       "get_obj st er' = Some (EntriesObj refs')"
       "get_obj st rr' = Some (RawObj r)"
       "n \<le> fa" "n \<le> er'" "n \<le> rr'"
       "\<forall>(k, a) \<in> set refs'. n \<le> a \<and> (\<exists>e. get_obj st a = Some (EntryObj e))"
       "distinct (map fst refs')" "distinct (map snd refs')"
       "F = \<lparr>file_locale = loc', path = p', format = fmt',
               entries = map_vals (the_entry st) refs', raw = r, lastModified = lm'\<rparr>"
    by blast
  from c(1) f have eqs: "loc' = loc" "p' = p" "fmt' = fmt" "er' = er" "rr' = rr" "lm' = lm"
    by simp_all
  from c(2) e eqs have refs: "refs' = refs" by simp
  from c(7) have "\<forall>k a. (k, a) \<in> set refs' \<longrightarrow>
                     n \<le> a \<and> (\<exists>e. get_obj st a = Some (EntryObj e))" by auto
  with c show ?thesis unfolding eqs refs by blast
qed

text \<open>The assignment \<^verbatim>\<open>targetFile.entries[fix.key] = {...}\<close> with a new entry object.\<close>

lemma add_entry_denotes:
  assumes d: "denotes n st fa F"
    and f: "get_obj st fa = Some (FileObj loc p fmt er rr lm)"
    and e: "get_obj st er = Some (EntriesObj refs)"
  shows "denotes n (put_obj er (EntriesObj (obj_set k (length st) refs)) (st @ [EntryObj ne])) fa
           (F\<lparr>entries := obj_set k ne (entries F)\<rparr>)"
proof -
  from denotes_parts [OF d f e] obtain r where
    c3: "get_obj st rr = Some (RawObj r)" and c4: "n \<le> fa" and c5: "n \<le> er" and c6: "n \<le> rr"
    and m: "\<And>k a. (k, a) \<in> set refs \<Longrightarrow> n \<le> a \<and> (\<exists>e. get_obj st a = Some (EntryObj e))"
    and dk: "distinct (map fst refs)" and dv: "distinct (map snd refs)"
    and F: "F = \<lparr>file_locale = loc, path = p, format = fmt,
               entries = map_vals (the_entry st) refs, raw = r, lastModified = lm\<rparr>"
    by blast
  note c = f e c3 c4 c5 c6
  let ?st1 = "st @ [EntryObj ne]"
  let ?refs = "obj_set k (length st) refs"
  let ?st' = "put_obj er (EntriesObj ?refs) ?st1"
  from c(1,2,3) have lt: "fa < length st" "er < length st" "rr < length st"
    by (auto dest: get_obj_Some_lt)
  from c(1,2,3) have ne: "fa \<noteq> er" "rr \<noteq> er" by auto
  have g1: "get_obj ?st' fa = Some (FileObj loc p fmt er rr lm)"
    using c(1) ne lt by (simp add: get_obj_put_obj get_obj_append)
  have g2: "get_obj ?st' er = Some (EntriesObj ?refs)"
    using lt by (simp add: get_obj_put_obj)
  have g3: "get_obj ?st' rr = Some (RawObj r)"
    using c(3) ne lt by (simp add: get_obj_put_obj get_obj_append)
  have old: "get_obj ?st' a = get_obj st a \<and> a < length st" if "(k', a) \<in> set refs" for k' a
  proof -
    from m [OF that] obtain e' where a: "get_obj st a = Some (EntryObj e')" by blast
    then have "a < length st" by (rule get_obj_Some_lt)
    moreover from a c(2) have "a \<noteq> er" by auto
    ultimately show ?thesis by (simp add: get_obj_put_obj get_obj_append)
  qed
  have new: "get_obj ?st' (length st) = Some (EntryObj ne)"
    using lt by (simp add: get_obj_put_obj get_obj_append)
  from c(4) lt have nl: "n \<le> length st" by simp
  have m': "n \<le> a \<and> (\<exists>e. get_obj ?st' a = Some (EntryObj e))" if "(k', a) \<in> set ?refs" for k' a
  proof -
    from that set_obj_set [of k "length st" refs]
    have "(k', a) = (k, length st) \<or> (k', a) \<in> set refs" by auto
    then show ?thesis
    proof
      assume "(k', a) = (k, length st)"
      with new nl show ?thesis by simp
    next
      assume "(k', a) \<in> set refs"
      with m [of k' a] old [of k' a] show ?thesis by simp
    qed
  qed
  have dk': "distinct (map fst ?refs)"
    using distinct_keys_obj_set [of refs k "length st"] dk by (simp add: obj_keys_def)
  have fresh: "length st \<notin> snd ` set refs" using old by force
  from dv have "inj_on snd (set refs)" by (rule inj_on_snd_obj)
  with fresh have "inj_on snd (insert (k, length st) (set refs))"
    by (force simp: inj_on_insert)
  with dk' set_obj_set [of k "length st" refs] have dv': "distinct (map snd ?refs)"
    by (rule distinct_vals_sub)
  have "map_vals (the_entry ?st') ?refs
          = obj_set k (the_entry ?st' (length st)) (map_vals (the_entry ?st') refs)"
    by (rule map_vals_obj_set)
  also have "the_entry ?st' (length st) = ne" using new by (rule the_entry_eq)
  also have "map_vals (the_entry ?st') refs = map_vals (the_entry st) refs"
    by (rule map_vals_the_entry_cong) (simp add: old)
  finally have en: "map_vals (the_entry ?st') ?refs = obj_set k ne (map_vals (the_entry st) refs)" .
  show ?thesis
    by (rule denotesI [OF g1 g2 g3 c(4) c(5) c(6) m' dk' dv']) (simp_all add: F en)
qed

text \<open>The deletions \<^verbatim>\<open>delete targetFile.entries[k]\<close> and \<^verbatim>\<open>delete targetFile.raw[...]\<close>.\<close>

lemma delete_denotes:
  assumes d: "denotes n st fa F"
    and f: "get_obj st fa = Some (FileObj loc p fmt er rr lm)"
    and e: "get_obj st er = Some (EntriesObj refs)"
  shows "denotes n (put_obj rr (RawObj r') (put_obj er (EntriesObj (obj_delete k refs)) st)) fa
           (F\<lparr>entries := obj_delete k (entries F), raw := r'\<rparr>)"
proof -
  from denotes_parts [OF d f e] obtain r where
    c3: "get_obj st rr = Some (RawObj r)" and c4: "n \<le> fa" and c5: "n \<le> er" and c6: "n \<le> rr"
    and m: "\<And>k a. (k, a) \<in> set refs \<Longrightarrow> n \<le> a \<and> (\<exists>e. get_obj st a = Some (EntryObj e))"
    and dk: "distinct (map fst refs)" and dv: "distinct (map snd refs)"
    and F: "F = \<lparr>file_locale = loc, path = p, format = fmt,
               entries = map_vals (the_entry st) refs, raw = r, lastModified = lm\<rparr>"
    by blast
  let ?refs = "obj_delete k refs"
  let ?st' = "put_obj rr (RawObj r') (put_obj er (EntriesObj ?refs) st)"
  from f e c3 have lt: "fa < length st" "er < length st" "rr < length st"
    by (auto dest: get_obj_Some_lt)
  from f e c3 have ne: "fa \<noteq> er" "rr \<noteq> er" "fa \<noteq> rr" by auto
  have g1: "get_obj ?st' fa = Some (FileObj loc p fmt er rr lm)"
    using f ne lt by (simp add: get_obj_put_obj length_put_obj)
  have g2: "get_obj ?st' er = Some (EntriesObj ?refs)"
    using ne lt by (simp add: get_obj_put_obj length_put_obj)
  have g3: "get_obj ?st' rr = Some (RawObj r')"
    using lt by (simp add: get_obj_put_obj length_put_obj)
  have old: "get_obj ?st' a = get_obj st a" if "(k', a) \<in> set refs" for k' a
  proof -
    from m [OF that] obtain e' where a: "get_obj st a = Some (EntryObj e')" by blast
    with e c3 have "a \<noteq> er" "a \<noteq> rr" by auto
    then show ?thesis by (simp add: get_obj_put_obj)
  qed
  have sub: "set ?refs \<subseteq> set refs" by (rule set_obj_delete)
  have m': "n \<le> a \<and> (\<exists>e. get_obj ?st' a = Some (EntryObj e))" if "(k', a) \<in> set ?refs" for k' a
  proof -
    from that sub have "(k', a) \<in> set refs" by blast
    with m [of k' a] old [of k' a] show ?thesis by simp
  qed
  have dk': "distinct (map fst ?refs)"
    using distinct_keys_obj_delete [of refs k] dk by (simp add: obj_keys_def)
  from dv have "inj_on snd (set refs)" by (rule inj_on_snd_obj)
  with dk' sub have dv': "distinct (map snd ?refs)" by (rule distinct_vals_sub)
  have "map_vals (the_entry ?st') ?refs = map_vals (the_entry st) ?refs"
    by (rule map_vals_the_entry_cong) (use sub old in blast)
  also have "\<dots> = obj_delete k (map_vals (the_entry st) refs)"
    by (rule map_vals_obj_delete)
  finally have en: "map_vals (the_entry ?st') ?refs = obj_delete k (map_vals (the_entry st) refs)" .
  show ?thesis
    by (rule denotesI [OF g1 g2 g3 c4 c5 c6 m' dk' dv']) (simp_all add: F en)
qed

text \<open>The assignment \<^verbatim>\<open>targetFile.entries[fix.key].value = fix.newValue\<close>.\<close>

lemma set_value_denotes:
  assumes d: "denotes n st fa F"
    and f: "get_obj st fa = Some (FileObj loc p fmt er rr lm)"
    and e: "get_obj st er = Some (EntriesObj refs)"
    and g: "obj_get refs k = Some ea"
  shows "denotes n (put_obj ea (EntryObj e') st) fa (F\<lparr>entries := obj_set k e' (entries F)\<rparr>)"
proof -
  from denotes_parts [OF d f e] obtain r where
    c3: "get_obj st rr = Some (RawObj r)" and c4: "n \<le> fa" and c5: "n \<le> er" and c6: "n \<le> rr"
    and m: "\<And>k a. (k, a) \<in> set refs \<Longrightarrow> n \<le> a \<and> (\<exists>e. get_obj st a = Some (EntryObj e))"
    and dk: "distinct (map fst refs)" and dv: "distinct (map snd refs)"
    and F: "F = \<lparr>file_locale = loc, path = p, format = fmt,
               entries = map_vals (the_entry st) refs, raw = r, lastModified = lm\<rparr>"
    by blast
  let ?st' = "put_obj ea (EntryObj e') st"
  from g have mem: "(k, ea) \<in> set refs" by (simp add: obj_get_def map_of_SomeD)
  from m [OF mem] obtain e0 where ea: "get_obj st ea = Some (EntryObj e0)" by blast
  then have lt: "ea < length st" by (rule get_obj_Some_lt)
  from ea f e c3 have ne: "fa \<noteq> ea" "er \<noteq> ea" "rr \<noteq> ea" by auto
  have g1: "get_obj ?st' fa = Some (FileObj loc p fmt er rr lm)"
    using f ne by (simp add: get_obj_put_obj)
  have g2: "get_obj ?st' er = Some (EntriesObj refs)"
    using e ne by (simp add: get_obj_put_obj)
  have g3: "get_obj ?st' rr = Some (RawObj r)"
    using c3 ne by (simp add: get_obj_put_obj)
  have m': "n \<le> a \<and> (\<exists>e. get_obj ?st' a = Some (EntryObj e))" if "(k', a) \<in> set refs" for k' a
    using m [OF that] lt by (auto simp: get_obj_put_obj)
  have te: "the_entry ?st' a = (if a = ea then e' else the_entry st a)" for a
    using lt by (simp add: the_entry_def get_obj_put_obj)
  have "map_vals (the_entry ?st') refs = map_vals (\<lambda>a. if a = ea then e' else the_entry st a) refs"
    by (rule map_vals_cong) (simp add: te)
  also have "\<dots> = obj_set k e' (map_vals (the_entry st) refs)"
    by (rule map_vals_update_at [OF dk dv g])
  finally have en: "map_vals (the_entry ?st') refs = obj_set k e' (map_vals (the_entry st) refs)" .
  show ?thesis
    by (rule denotesI [OF g1 g2 g3 c4 c5 c6 m' dk dv]) (simp_all add: F en)
qed

text \<open>The assignment \<^verbatim>\<open>targetFile.entries = reordered\<close> of a new object.\<close>

lemma reorder_denotes:
  assumes d: "denotes n st fa F"
    and f: "get_obj st fa = Some (FileObj loc p fmt er rr lm)"
    and e: "get_obj st er = Some (EntriesObj refs)"
    and sub: "set refs' \<subseteq> set refs" and dk': "distinct (map fst refs')"
    and nat: "map_vals (the_entry st) refs' = es'"
  shows "denotes n (put_obj fa (FileObj loc p fmt (length st) rr lm) (st @ [EntriesObj refs'])) fa
           (F\<lparr>entries := es'\<rparr>)"
proof -
  from denotes_parts [OF d f e] obtain r where
    c3: "get_obj st rr = Some (RawObj r)" and c4: "n \<le> fa" and c5: "n \<le> er" and c6: "n \<le> rr"
    and m: "\<And>k a. (k, a) \<in> set refs \<Longrightarrow> n \<le> a \<and> (\<exists>e. get_obj st a = Some (EntryObj e))"
    and dk: "distinct (map fst refs)" and dv: "distinct (map snd refs)"
    and F: "F = \<lparr>file_locale = loc, path = p, format = fmt,
               entries = map_vals (the_entry st) refs, raw = r, lastModified = lm\<rparr>"
    by blast
  let ?st' = "put_obj fa (FileObj loc p fmt (length st) rr lm) (st @ [EntriesObj refs'])"
  from f e c3 have lt: "fa < length st" "er < length st" "rr < length st"
    by (auto dest: get_obj_Some_lt)
  from f c3 have ne: "fa \<noteq> rr" by auto
  from c4 lt have nl: "n \<le> length st" by simp
  have g1: "get_obj ?st' fa = Some (FileObj loc p fmt (length st) rr lm)"
    using lt by (simp add: get_obj_put_obj)
  have g2: "get_obj ?st' (length st) = Some (EntriesObj refs')"
    using lt by (simp add: get_obj_put_obj get_obj_append)
  have g3: "get_obj ?st' rr = Some (RawObj r)"
    using c3 ne lt by (simp add: get_obj_put_obj get_obj_append)
  have old: "get_obj ?st' a = get_obj st a" if "(k', a) \<in> set refs" for k' a
  proof -
    from m [OF that] obtain e' where a: "get_obj st a = Some (EntryObj e')" by blast
    then have "a < length st" by (rule get_obj_Some_lt)
    moreover from a f have "a \<noteq> fa" by auto
    ultimately show ?thesis by (simp add: get_obj_put_obj get_obj_append)
  qed
  have m': "n \<le> a \<and> (\<exists>e. get_obj ?st' a = Some (EntryObj e))" if "(k', a) \<in> set refs'" for k' a
  proof -
    from that sub have "(k', a) \<in> set refs" by blast
    with m [of k' a] old [of k' a] show ?thesis by simp
  qed
  from dv have "inj_on snd (set refs)" by (rule inj_on_snd_obj)
  with dk' sub have dv': "distinct (map snd refs')" by (rule distinct_vals_sub)
  have "map_vals (the_entry ?st') refs' = map_vals (the_entry st) refs'"
    by (rule map_vals_the_entry_cong) (use sub old in blast)
  with nat have en: "map_vals (the_entry ?st') refs' = es'" by simp
  show ?thesis
    by (rule denotesI [OF g1 g2 g3 c4 nl c6 m' dk' dv']) (simp_all add: F en)
qed

lemma denotes_file:
  assumes "denotes n st fa F"
  obtains loc p fmt er rr lm refs r where
    "get_obj st fa = Some (FileObj loc p fmt er rr lm)"
    and "get_obj st er = Some (EntriesObj refs)"
    and "get_obj st rr = Some (RawObj r)"
    and "entries F = map_vals (the_entry st) refs" and "raw F = r"
    and "n \<le> fa" and "n \<le> er" and "n \<le> rr" and "fa < length st"
proof -
  from assms [unfolded denotes_iff] obtain loc p fmt er rr lm refs r where
    c: "get_obj st fa = Some (FileObj loc p fmt er rr lm)"
       "get_obj st er = Some (EntriesObj refs)"
       "get_obj st rr = Some (RawObj r)"
       "n \<le> fa" "n \<le> er" "n \<le> rr"
       "F = \<lparr>file_locale = loc, path = p, format = fmt,
               entries = map_vals (the_entry st) refs, raw = r, lastModified = lm\<rparr>"
    by blast
  from c(7) have en: "entries F = map_vals (the_entry st) refs" and rw: "raw F = r" by simp_all
  from c(1) have lt: "fa < length st" by (rule get_obj_Some_lt)
  show thesis by (rule that [OF c(1) c(2) c(3) en rw c(4) c(5) c(6) lt])
qed

lemma applyFixS_value_sim:
  assumes vt: "fix_type fx \<in> {FixPlaceholder, FixFormatting, FixICU}"
    and d: "denotes n st fa F"
    and run: "applyFixS src fx fa st = (r, st')"
  shows "take n st' = take n st \<and> length st \<le> length st'
    \<and> (\<forall>e. r = Inl e \<longrightarrow> applyFix S fx F = Inl e)
    \<and> (\<forall>u. r = Inr u \<longrightarrow> (\<exists>F'. applyFix S fx F = Inr F' \<and> denotes n st' fa F'))"
proof -
  from d obtain loc p fmt er rr lm refs rw where
    f: "get_obj st fa = Some (FileObj loc p fmt er rr lm)"
    and e: "get_obj st er = Some (EntriesObj refs)"
    and en: "entries F = map_vals (the_entry st) refs"
    by (rule denotes_file)
  from denotes_parts [OF d f e]
  have m: "\<And>k a. (k, a) \<in> set refs \<Longrightarrow> n \<le> a \<and> (\<exists>e. get_obj st a = Some (EntryObj e))"
    by blast
  have unS: "applyFixS src fx fa st =
     (case obj_get refs (fix_key fx) of
        None \<Rightarrow> (Inr (), st)
      | Some ea \<Rightarrow>
          if truthy_str (newValue fx) then
            (case get_obj st ea of
               Some (EntryObj e) \<Rightarrow>
                 (Inr (), put_obj ea (EntryObj (e\<lparr>val := the (newValue fx)\<rparr>)) st)
             | _ \<Rightarrow> (Inl TypeError, st))
          else (Inr (), st))"
    using vt f e by (auto simp: applyFixS_def)
  have unP: "applyFix S fx F =
          (case obj_get (entries F) (fix_key fx) of
             None \<Rightarrow> Inr F
           | Some e \<Rightarrow>
               if truthy_str (newValue fx)
               then Inr (F\<lparr>entries := obj_set (fix_key fx) (e\<lparr>val := the (newValue fx)\<rparr>)
                                        (entries F)\<rparr>)
               else Inr F)"
    using vt by (auto simp: applyFix_def)
  have look: "obj_get (entries F) (fix_key fx) = map_option (the_entry st) (obj_get refs (fix_key fx))"
    unfolding en by (rule obj_get_map_vals)
  show ?thesis
  proof (cases "obj_get refs (fix_key fx)")
    case None
    with run have "r = Inr ()" "st' = st" unfolding unS by simp_all
    moreover from None have "applyFix S fx F = Inr F" unfolding unP look by simp
    ultimately show ?thesis using d by simp
  next
    case (Some ea)
    then have mem: "(fix_key fx, ea) \<in> set refs" by (simp add: obj_get_def map_of_SomeD)
    from m [OF mem] obtain e0 where ea: "get_obj st ea = Some (EntryObj e0)" and nea: "n \<le> ea"
      by blast
    from ea have te: "the_entry st ea = e0" by (rule the_entry_eq)
    show ?thesis
    proof (cases "truthy_str (newValue fx)")
      case False
      with Some run have "r = Inr ()" "st' = st" unfolding unS by simp_all
      moreover from Some False have "applyFix S fx F = Inr F" unfolding unP look by simp
      ultimately show ?thesis using d by simp
    next
      case True
      let ?e' = "e0\<lparr>val := the (newValue fx)\<rparr>"
      from Some True ea run have r: "r = Inr ()" and st': "st' = put_obj ea (EntryObj ?e') st"
        unfolding unS by simp_all
      from Some True te
      have a: "applyFix S fx F = Inr (F\<lparr>entries := obj_set (fix_key fx) ?e' (entries F)\<rparr>)"
        unfolding unP look by simp
      from set_value_denotes [OF d f e Some, of ?e']
      have "denotes n st' fa (F\<lparr>entries := obj_set (fix_key fx) ?e' (entries F)\<rparr>)"
        unfolding st' .
      moreover have "take n st' = take n st" unfolding st' using nea by (simp add: take_put_obj)
      moreover have "length st \<le> length st'" unfolding st' by (simp add: length_put_obj)
      ultimately show ?thesis using r a by simp
    qed
  qed
qed

lemma applyFixS_sim:
  assumes d: "denotes n st fa F" and S: "load_file st src = Some S"
    and run: "applyFixS src fx fa st = (r, st')"
  shows "take n st' = take n st \<and> length st \<le> length st'
    \<and> (\<forall>e. r = Inl e \<longrightarrow> applyFix S fx F = Inl e)
    \<and> (\<forall>u. r = Inr u \<longrightarrow> (\<exists>F'. applyFix S fx F = Inr F' \<and> denotes n st' fa F'))"
proof -
  from d obtain loc p fmt er rr lm refs rw where
    f: "get_obj st fa = Some (FileObj loc p fmt er rr lm)"
    and e: "get_obj st er = Some (EntriesObj refs)"
    and c3: "get_obj st rr = Some (RawObj rw)"
    and en: "entries F = map_vals (the_entry st) refs" and rF: "raw F = rw"
    and b: "n \<le> fa" "n \<le> er" "n \<le> rr" and lt: "fa < length st"
    by (rule denotes_file)
  from b lt have nl: "n \<le> length st" by simp
  show ?thesis
  proof (cases "fix_type fx")
    case AddMissing
    show ?thesis
    proof (cases "obj_get (entries S) (fix_key fx)")
      case None
      with AddMissing f e S run have "r = Inl TypeError" "st' = st"
        by (simp_all add: applyFixS_def)
      moreover from None AddMissing have "applyFix S fx F = Inl TypeError"
        by (simp add: applyFix_def)
      ultimately show ?thesis by simp
    next
      case (Some se)
      let ?ne = "\<lparr>key = fix_key fx,
                 val = (if truthy_str (newValue fx) then the (newValue fx) else ''TODO''),
                 metadata = metadata se, description = description se,
                 placeholders = placeholders se, econtext = None, tags = None\<rparr>"
      from Some AddMissing f e S run
      have r: "r = Inr ()"
        and st': "st' = put_obj er (EntriesObj (obj_set (fix_key fx) (length st) refs))
                          (st @ [EntryObj ?ne])"
        by (simp_all add: applyFixS_def new_obj_def)
      from Some AddMissing
      have a: "applyFix S fx F = Inr (F\<lparr>entries := obj_set (fix_key fx) ?ne (entries F)\<rparr>)"
        by (simp add: applyFix_def)
      from add_entry_denotes [OF d f e, of "fix_key fx" ?ne]
      have "denotes n st' fa (F\<lparr>entries := obj_set (fix_key fx) ?ne (entries F)\<rparr>)"
        unfolding st' .
      moreover have "take n st' = take n st"
        unfolding st' using b nl by (simp add: take_put_obj)
      moreover have "length st \<le> length st'" unfolding st' by (simp add: length_put_obj)
      ultimately show ?thesis using r a by simp
    qed
  next
    case RemoveExtra
    let ?r' = "obj_delete (CHR ''@'' # fix_key fx) (obj_delete (fix_key fx) rw)"
    from RemoveExtra f e c3 run
    have r: "r = Inr ()"
      and st': "st' = put_obj rr (RawObj ?r')
                        (put_obj er (EntriesObj (obj_delete (fix_key fx) refs)) st)"
      by (simp_all add: applyFixS_def)
    from RemoveExtra rF
    have a: "applyFix S fx F = Inr (F\<lparr>entries := obj_delete (fix_key fx) (entries F), raw := ?r'\<rparr>)"
      by (simp add: applyFix_def)
    from delete_denotes [OF d f e, of ?r' "fix_key fx"]
    have "denotes n st' fa (F\<lparr>entries := obj_delete (fix_key fx) (entries F), raw := ?r'\<rparr>)"
      unfolding st' .
    moreover have "take n st' = take n st"
      unfolding st' using b by (simp add: take_put_obj)
    moreover have "length st \<le> length st'" unfolding st' by (simp add: length_put_obj)
    ultimately show ?thesis using r a by simp
  next
    case RemoveDuplicate
    let ?r' = "obj_delete (CHR ''@'' # fix_key fx) (obj_delete (fix_key fx) rw)"
    from RemoveDuplicate f e c3 run
    have r: "r = Inr ()"
      and st': "st' = put_obj rr (RawObj ?r')
                        (put_obj er (EntriesObj (obj_delete (fix_key fx) refs)) st)"
      by (simp_all add: applyFixS_def)
    from RemoveDuplicate rF
    have a: "applyFix S fx F = Inr (F\<lparr>entries := obj_delete (fix_key fx) (entries F), raw := ?r'\<rparr>)"
      by (simp add: applyFix_def)
    from delete_denotes [OF d f e, of ?r' "fix_key fx"]
    have "denotes n st' fa (F\<lparr>entries := obj_delete (fix_key fx) (entries F), raw := ?r'\<rparr>)"
      unfolding st' .
    moreover have "take n st' = take n st"
      unfolding st' using b by (simp add: take_put_obj)
    moreover have "length st \<le> length st'" unfolding st' by (simp add: length_put_obj)
    ultimately show ?thesis using r a by simp
  next
    case FixPlaceholder
    then have "fix_type fx \<in> {FixPlaceholder, FixFormatting, FixICU}" by simp
    from applyFixS_value_sim [OF this d run] show ?thesis .
  next
    case FixICU
    then have "fix_type fx \<in> {FixPlaceholder, FixFormatting, FixICU}" by simp
    from applyFixS_value_sim [OF this d run] show ?thesis .
  next
    case FixFormatting
    then have "fix_type fx \<in> {FixPlaceholder, FixFormatting, FixICU}" by simp
    from applyFixS_value_sim [OF this d run] show ?thesis .
  qed
qed

lemma get_obj_prefix: "get_obj st a = Some ob \<Longrightarrow> get_obj (st @ ext) a = Some ob"
  by (auto simp: get_obj_def nth_append split: if_splits)

lemma load_entries_prefix:
  "load_entries st refs = Some es \<Longrightarrow> load_entries (st @ ext) refs = Some es"
proof (induction refs arbitrary: es)
  case Nil
  then show ?case by simp
next
  case (Cons ka refs)
  obtain k a where ka: "ka = (k, a)" by (cases ka)
  from Cons.prems obtain e es' where a: "get_obj st a = Some (EntryObj e)"
    and r: "load_entries st refs = Some es'" and es: "es = (k, e) # es'"
    unfolding ka by (auto split: option.splits obj.splits)
  from get_obj_prefix [OF a, of ext] Cons.IH [OF r] es show ?case
    unfolding ka by simp
qed

lemma load_file_prefix:
  assumes "load_file st fa = Some F"
  shows "load_file (st @ ext) fa = Some F"
proof -
  from assms obtain loc p fmt er rr lm where f: "get_obj st fa = Some (FileObj loc p fmt er rr lm)"
    by (auto simp: load_file_def split: option.splits obj.splits)
  from assms f obtain refs where e: "get_obj st er = Some (EntriesObj refs)"
    by (auto simp: load_file_def split: option.splits obj.splits)
  from assms f e obtain es where l: "load_entries st refs = Some es"
    by (auto simp: load_file_def split: option.splits obj.splits)
  from assms f e l obtain r where rw: "get_obj st rr = Some (RawObj r)"
    by (auto simp: load_file_def split: option.splits obj.splits)
  from assms f e l rw have F: "F = \<lparr>file_locale = loc, path = p, format = fmt, entries = es,
                               raw = r, lastModified = lm\<rparr>"
    by (simp add: load_file_def)
  from get_obj_prefix [OF f, of ext] get_obj_prefix [OF e, of ext]
       load_entries_prefix [OF l, of ext] get_obj_prefix [OF rw, of ext] F
  show ?thesis by (simp add: load_file_def)
qed

lemma load_file_take:
  assumes "load_file (take n st) fa = Some F"
  shows "load_file st fa = Some F"
  using load_file_prefix [OF assms, of "drop n st"] by simp

lemma denotes_load: "denotes n st fa F \<Longrightarrow> load_file st fa = Some F"
  by (simp add: denotes_def)

lemma generateFixS_eq:
  assumes "load_file st src = Some S" and "denotes n st fa F"
  shows "generateFixS src issue fa st = generateFix S issue F"
  using assms by (simp add: generateFixS_def denotes_def)

lemma fixLoopS_sim:
  assumes d: "denotes n st fa F" and S: "load_file (take n st) src = Some S"
    and run: "fixLoopS cfg src is fa acc st = (r, st')"
  shows "take n st' = take n st \<and> length st \<le> length st'
    \<and> (\<forall>e. r = Inl e \<longrightarrow> fixLoop cfg S is (F, acc) = Inl e)
    \<and> (\<forall>fixes. r = Inr fixes \<longrightarrow>
          (\<exists>F'. fixLoop cfg S is (F, acc) = Inr (F', fixes) \<and> denotes n st' fa F'))"
  using d S run
proof (induction "is" arbitrary: st F acc)
  case Nil
  then show ?case by auto
next
  case (Cons issue rest)
  note d = Cons.prems(1) and S = Cons.prems(2) and run = Cons.prems(3)
  from S have S': "load_file st src = Some S" by (rule load_file_take)
  have g: "generateFixS src issue fa st = generateFix S issue F"
    by (rule generateFixS_eq [OF S' d])
  show ?case
  proof (cases "generateFix S issue F")
    case (Inl e)
    with g run show ?thesis by auto
  next
    case (Inr fx)
    show ?thesis
    proof (cases "doAutoFix cfg")
      case False
      with Inr g run have run': "fixLoopS cfg src rest fa acc st = (r, st')" by simp
      from Cons.IH [OF d S run'] Inr False show ?thesis by auto
    next
      case True
      obtain r1 st1 where a: "applyFixS src fx fa st = (r1, st1)" by (cases "applyFixS src fx fa st")
      note sim = applyFixS_sim [OF d S' a]
      show ?thesis
      proof (cases r1)
        case (Inl e)
        with Inr g True a run have "r = Inl e" "st' = st1" by simp_all
        moreover from sim Inl have "applyFix S fx F = Inl e" by simp
        ultimately show ?thesis using sim Inr True by auto
      next
        case r1: (Inr u)
        with Inr g True a run
        have run': "fixLoopS cfg src rest fa (acc @ [fx]) st1 = (r, st')" by simp
        from sim r1 obtain F1 where a1: "applyFix S fx F = Inr F1" and d1: "denotes n st1 fa F1"
          by blast
        from sim S have S1: "load_file (take n st1) src = Some S" by simp
        from Cons.IH [OF d1 S1 run'] sim a1 Inr True show ?thesis by auto
      qed
    qed
  qed
qed

lemma reorderS_sim:
  assumes d: "denotes n st fa F" and run: "reorderS f fa st = (r, st')"
    and sub: "\<And>refs. set (f refs) \<subseteq> set refs"
    and dk: "\<And>refs. distinct (map fst (f refs))"
    and nat: "\<And>refs. map_vals (the_entry st) (f refs) = g (map_vals (the_entry st) refs)"
  shows "take n st' = take n st \<and> length st \<le> length st' \<and> r = Inr ()
    \<and> denotes n st' fa (F\<lparr>entries := g (entries F)\<rparr>)"
proof -
  from d obtain loc p fmt er rr lm refs rw where
    f: "get_obj st fa = Some (FileObj loc p fmt er rr lm)"
    and e: "get_obj st er = Some (EntriesObj refs)"
    and en: "entries F = map_vals (the_entry st) refs"
    and nfa: "n \<le> fa" and lt: "fa < length st"
    by (rule denotes_file)
  from run f e have r: "r = Inr ()"
    and st': "st' = put_obj fa (FileObj loc p fmt (length st) rr lm) (st @ [EntriesObj (f refs)])"
    by (simp_all add: reorderS_def new_obj_def)
  have "denotes n st' fa (F\<lparr>entries := g (map_vals (the_entry st) refs)\<rparr>)"
    unfolding st' by (rule reorder_denotes [OF d f e sub dk nat])
  then have dn: "denotes n st' fa (F\<lparr>entries := g (entries F)\<rparr>)" by (simp add: en)
  from nfa lt have fr: "take n st' = take n st" by (simp add: st' take_put_obj)
  have ln: "length st \<le> length st'" by (simp add: st' length_put_obj)
  from fr ln r dn show ?thesis by simp
qed

lemma reorderToMatchSourceS_sim:
  assumes d: "denotes n st fa F" and S: "load_file st src = Some S"
    and run: "reorderToMatchSourceS src fa st = (r, st')"
  shows "take n st' = take n st \<and> length st \<le> length st' \<and> r = Inr ()
    \<and> denotes n st' fa (reorderToMatchSource S F)"
proof -
  from run S have run': "reorderS (mirror_order (obj_keys (entries S))) fa st = (r, st')"
    by (simp add: reorderToMatchSourceS_def)
  have dk: "distinct (map fst (mirror_order (obj_keys (entries S)) refs))" for refs :: "addr js_object"
    using distinct_keys_mirror_order [of "obj_keys (entries S)" refs] by (simp add: obj_keys_def)
  from reorderS_sim [OF d run', of "mirror_order (obj_keys (entries S))",
         OF set_mirror_order dk map_vals_mirror_order]
  show ?thesis by (simp add: reorderToMatchSource_def)
qed

lemma reorderAlphabeticallyS_sim:
  assumes d: "denotes n st fa F"
    and run: "reorderAlphabeticallyS fa st = (r, st')"
  shows "take n st' = take n st \<and> length st \<le> length st' \<and> r = Inr ()
    \<and> denotes n st' fa (reorderAlphabetically F)"
proof -
  from run have run': "reorderS alphabetical_order fa st = (r, st')"
    by (simp add: reorderAlphabeticallyS_def)
  have dk: "distinct (map fst (alphabetical_order refs))" for refs :: "addr js_object"
    using distinct_keys_alphabetical_order [of refs] by (simp add: obj_keys_def)
  from reorderS_sim [OF d run', of alphabetical_order,
         OF set_alphabetical_order dk map_vals_alphabetical_order]
  show ?thesis by (simp add: reorderAlphabetically_def)
qed

lemma store_entries_spec:
  "store_entries es st = (refs, st1) \<Longrightarrow>
   st1 = st @ map (\<lambda>(k, e). EntryObj e) es
   \<and> refs = zip (map fst es) [length st ..< length st + length es]"
proof (induction es arbitrary: st refs st1)
  case Nil
  then show ?case by simp
next
  case (Cons ke es)
  obtain k e where ke: "ke = (k, e)" by (cases ke)
  obtain refs' st2 where s: "store_entries es (st @ [EntryObj e]) = (refs', st2)"
    by (cases "store_entries es (st @ [EntryObj e])")
  from Cons.prems s have r: "refs = (k, length st) # refs'" and st1: "st1 = st2"
    unfolding ke by (simp_all add: new_obj_def)
  from Cons.IH [OF s] have st2: "st2 = st @ EntryObj e # map (\<lambda>(k, e). EntryObj e) es"
    and refs': "refs' = zip (map fst es) [Suc (length st) ..< Suc (length st) + length es]"
    by simp_all
  have "[length st ..< length st + length (ke # es)]
          = length st # [Suc (length st) ..< Suc (length st) + length es]"
    by (subst upt_rec) simp
  with r st1 st2 refs' show ?case unfolding ke by simp
qed

lemma store_file_denotes:
  assumes dk: "distinct (map fst (entries F))" and run: "store_file F st = (fa, st')"
  shows "denotes (length st) st' fa F \<and> take (length st) st' = st"
proof -
  let ?es = "entries F"
  let ?m = "length st" and ?l = "length (entries F)"
  let ?refs = "zip (map fst ?es) [?m ..< ?m + ?l]"
  let ?st1 = "st @ map (\<lambda>(k, e). EntryObj e) ?es"
  let ?fo = "FileObj (file_locale F) (path F) (format F) (?m + ?l) (Suc (?m + ?l)) (lastModified F)"
  obtain refs st1 where s: "store_entries ?es st = (refs, st1)" by (cases "store_entries ?es st")
  from store_entries_spec [OF s] have refs: "refs = ?refs" and st1: "st1 = ?st1" by simp_all
  from run s have fa: "fa = Suc (Suc (?m + ?l))"
    and st': "st' = ?st1 @ [EntriesObj ?refs, RawObj (raw F), ?fo]"
    unfolding refs st1 by (simp_all add: store_file_def new_obj_def)
  have len: "length st' = ?m + ?l + 3" by (simp add: st')
  have g1: "get_obj st' fa = Some ?fo"
    by (simp add: get_obj_def st' fa nth_append)
  have g2: "get_obj st' (?m + ?l) = Some (EntriesObj ?refs)"
    by (simp add: get_obj_def st' nth_append)
  have g3: "get_obj st' (Suc (?m + ?l)) = Some (RawObj (raw F))"
    by (simp add: get_obj_def st' nth_append)
  have ent: "get_obj st' (?m + i) = Some (EntryObj (snd (?es ! i)))" if "i < ?l" for i
    using that by (simp add: get_obj_def st' nth_append case_prod_beta)
  have m: "?m \<le> a \<and> (\<exists>e. get_obj st' a = Some (EntryObj e))" if "(k, a) \<in> set ?refs" for k a
  proof -
    from that have "a \<in> set [?m ..< ?m + ?l]" by (rule set_zip_rightD)
    then have "?m \<le> a" and "a - ?m < ?l" by auto
    with ent [of "a - ?m"] show ?thesis by auto
  qed
  have dk': "distinct (map fst ?refs)" using dk by simp
  have dv': "distinct (map snd ?refs)" by simp
  have en: "map_vals (the_entry st') ?refs = ?es"
  proof (rule nth_equalityI)
    show "length (map_vals (the_entry st') ?refs) = length ?es" by (simp add: map_vals_def)
  next
    fix i assume "i < length (map_vals (the_entry st') ?refs)"
    then have i: "i < ?l" by (simp add: map_vals_def)
    with ent [of i] show "map_vals (the_entry st') ?refs ! i = ?es ! i"
      by (simp add: map_vals_def the_entry_def)
  qed
  have "denotes ?m st' fa F"
    by (rule denotesI [OF g1 g2 g3 _ _ _ m dk' dv']) (simp_all add: fa en)
  moreover have "take ?m st' = st" by (simp add: st')
  ultimately show ?thesis by simp
qed

lemma cloneDeep_sim:
  assumes d: "denotes n st tgt T" and run: "cloneDeep tgt st = (r, st')"
  shows "\<exists>fa. r = Inr fa \<and> denotes (length st) st' fa T \<and> take (length st) st' = st"
proof -
  from d have l: "load_file st tgt = Some T" by (rule denotes_load)
  from d obtain loc p fmt er rr lm refs rw where
    f: "get_obj st tgt = Some (FileObj loc p fmt er rr lm)"
    and e: "get_obj st er = Some (EntriesObj refs)"
    and en: "entries T = map_vals (the_entry st) refs"
    by (rule denotes_file)
  from denotes_parts [OF d f e] have "distinct (map fst refs)" by blast
  then have dk: "distinct (map fst (entries T))"
    using obj_keys_map_vals [of "the_entry st" refs] by (simp add: en obj_keys_def)
  obtain fa st1 where s: "store_file T st = (fa, st1)" by (cases "store_file T st")
  from run l s have "r = Inr fa" "st' = st1" by (simp_all add: cloneDeep_def)
  with store_file_denotes [OF dk s] show ?thesis by simp
qed

lemma owned_denotes: "owned n st fa \<Longrightarrow> \<exists>F. denotes n st fa F"
  unfolding owned_iff denotes_iff by blast

lemma autoFixS_sim:
  assumes dT: "denotes 0 st tgt T" and src: "load_file st src = Some S"
    and run: "autoFixS config src tgt issues st = (r, st')"
  shows "take (length st) st' = st
    \<and> (\<forall>e. r = Inl e \<longrightarrow> autoFix config S T issues = Inl e)
    \<and> (\<forall>fa appliedFixes. r = Inr (fa, appliedFixes) \<longrightarrow>
          (\<exists>F. autoFix config S T issues = Inr (F, appliedFixes)
               \<and> denotes (length st) st' fa F))"
proof -
  let ?n = "length st"
  obtain r0 st1 where c: "cloneDeep tgt st = (r0, st1)" by (cases "cloneDeep tgt st")
  from cloneDeep_sim [OF dT c] obtain fa where r0: "r0 = Inr fa"
    and d1: "denotes ?n st1 fa T" and fr1: "take ?n st1 = st" by blast
  from src fr1 have S1: "load_file (take ?n st1) src = Some S" by simp
  obtain r2 st2 where l: "fixLoopS config src issues fa [] st1 = (r2, st2)"
    by (cases "fixLoopS config src issues fa [] st1")
  note sim = fixLoopS_sim [OF d1 S1 l]
  from sim fr1 have fr2: "take ?n st2 = st" by simp
  show ?thesis
  proof (cases r2)
    case (Inl e)
    with run c r0 l have "r = Inl e" "st' = st2" by (simp_all add: autoFixS_def)
    moreover from sim Inl have "fixLoop config S issues (T, []) = Inl e" by simp
    ultimately show ?thesis using fr2 by (simp add: autoFix_def)
  next
    case (Inr appliedFixes)
    with sim obtain F' where fl: "fixLoop config S issues (T, []) = Inr (F', appliedFixes)"
      and d2: "denotes ?n st2 fa F'" by blast
    from src fr2 have "load_file (take ?n st2) src = Some S" by simp
    then have S2: "load_file st2 src = Some S" by (rule load_file_take)
    show ?thesis
    proof (cases "preferOrder config")
      case None
      with run c r0 l Inr have "r = Inr (fa, appliedFixes)" "st' = st2"
        by (simp_all add: autoFixS_def)
      with fl d2 fr2 None show ?thesis by (simp add: autoFix_def)
    next
      case (Some ord)
      show ?thesis
      proof (cases ord)
        case MirrorSource
        obtain r3 st3 where ro: "reorderToMatchSourceS src fa st2 = (r3, st3)"
          by (cases "reorderToMatchSourceS src fa st2")
        note rs = reorderToMatchSourceS_sim [OF d2 S2 ro]
        from run c r0 l Inr Some MirrorSource ro rs
        have "r = Inr (fa, appliedFixes)" "st' = st3" by (simp_all add: autoFixS_def)
        with fl rs fr2 Some MirrorSource show ?thesis by (simp add: autoFix_def)
      next
        case Alphabetical
        obtain r3 st3 where ro: "reorderAlphabeticallyS fa st2 = (r3, st3)"
          by (cases "reorderAlphabeticallyS fa st2")
        note rs = reorderAlphabeticallyS_sim [OF d2 ro]
        from run c r0 l Inr Some Alphabetical ro rs
        have "r = Inr (fa, appliedFixes)" "st' = st3" by (simp_all add: autoFixS_def)
        with fl rs fr2 Some Alphabetical show ?thesis by (simp add: autoFix_def)
      qed
    qed
  qed
qed

text \<open>
  Claim C7. \<^verbatim>\<open>autoFix\<close> leaves the document it is given unchanged. On the store, for a
  well-formed target document (one entry object for each key) and a source document, a call of
  \<^verbatim>\<open>autoFix\<close>, whether it returns or throws, leaves every object that existed before the
  call as it was, so the target reads as the same document, entries, raw data and key order,
  after the call. A returned document is made of objects created during the call only, and
  it reads as the result of the applied fixes and the reordering.
\<close>

theorem autoFixS_leaves_input_unchanged:
  assumes tgt: "owned 0 st tgt" and src: "load_file st src = Some S"
    and run: "autoFixS config src tgt issues st = (r, st')"
  shows "take (length st) st' = st
    \<and> load_file st' tgt = load_file st tgt
    \<and> (\<exists>T. load_file st tgt = Some T
         \<and> (\<forall>e. r = Inl e \<longrightarrow> autoFix config S T issues = Inl e)
         \<and> (\<forall>fa appliedFixes. r = Inr (fa, appliedFixes) \<longrightarrow>
               owned (length st) st' fa
               \<and> (\<exists>F. load_file st' fa = Some F
                     \<and> autoFix config S T issues = Inr (F, appliedFixes))))"
proof -
  from tgt obtain T where dT: "denotes 0 st tgt T" by (blast dest: owned_denotes)
  then have lT: "load_file st tgt = Some T" by (rule denotes_load)
  note sim = autoFixS_sim [OF dT src run]
  from sim have fr: "take (length st) st' = st" by simp
  with lT have "load_file (take (length st) st') tgt = Some T" by simp
  then have "load_file st' tgt = Some T" by (rule load_file_take)
  with fr lT sim show ?thesis by (auto simp: denotes_def)
qed

theorem autoFixS_leaves_input_unchanged_witness:
  "owned 0 example_store 9
   \<and> load_file example_store 4
       = Some (plain_file ''en'' [(''greeting'', ''Hello''), (''bye'', ''Bye'')])
   \<and> take (length example_store)
         (snd (autoFixS \<lparr>doAutoFix = True, preferOrder = Some MirrorSource\<rparr> 4 9
                (validateTarget (\<lambda>v. Inl []) (\<lambda>j. [])
                   (plain_file ''en'' [(''greeting'', ''Hello''), (''bye'', ''Bye'')])
                   (plain_file ''es'' [(''old'', ''Viejo''), (''bye'', '' Adios '')]))
                example_store))
       = example_store
   \<and> load_file
         (snd (autoFixS \<lparr>doAutoFix = True, preferOrder = Some MirrorSource\<rparr> 4 9
                (validateTarget (\<lambda>v. Inl []) (\<lambda>j. [])
                   (plain_file ''en'' [(''greeting'', ''Hello''), (''bye'', ''Bye'')])
                   (plain_file ''es'' [(''old'', ''Viejo''), (''bye'', '' Adios '')]))
                example_store)) 9
       = load_file example_store 9"
proof -
  let ?S = "plain_file ''en'' [(''greeting'', ''Hello''), (''bye'', ''Bye'')]"
  let ?run = "autoFixS \<lparr>doAutoFix = True, preferOrder = Some MirrorSource\<rparr> 4 9
                (validateTarget (\<lambda>v. Inl []) (\<lambda>j. []) ?S
                   (plain_file ''es'' [(''old'', ''Viejo''), (''bye'', '' Adios '')]))
                example_store"
  have o: "owned 0 example_store 9" by code_simp
  have s: "load_file example_store 4 = Some ?S" by code_simp
  have run: "?run = (fst ?run, snd ?run)" by simp
  from autoFixS_leaves_input_unchanged [OF o s run] o s show ?thesis by blast
qed

end
